theory Spec2Isabelle
  imports Main "HOL-Library.AList"
begin

section \<open>Values of the JavaScript runtime\<close>

text \<open>
  The converter of \<^verbatim>\<open>src/services/conversionService.ts\<close> works on the tree that
  \<^verbatim>\<open>JSON.parse\<close> returns and on the values it builds itself. A value is one of the
  JSON shapes or \<^verbatim>\<open>undefined\<close>. An object is the list of its own properties in the
  order \<^verbatim>\<open>Object.entries\<close> gives them; a parsed object has pairwise distinct keys.
  Numbers are modelled as integers (the code only tests a number for truthiness and
  prints it; fractions and exponents are outside this embedding).
  Only own properties are read: a key that names an inherited member of a built-in
  prototype (\<^verbatim>\<open>constructor\<close>, \<^verbatim>\<open>toString\<close>, ...) is outside this embedding.
  A string is a list of bytes, which agrees with the runtime's strings on ASCII text.
\<close>

datatype jv =
    JUndef
  | JNull
  | JBool bool
  | JNum int
  | JStr string
  | JArr "jv list"
  | JObj "(string \<times> jv) list"

text \<open>
  What a call does: it returns a value, it throws, or its recursion never comes back
  (in the runtime: the call stack overflows).
\<close>

datatype error = TypeError | InvalidJSON

datatype 'a res = Ok 'a | Throw error | Diverge

fun bindR :: "'a res \<Rightarrow> ('a \<Rightarrow> 'b res) \<Rightarrow> 'b res" where
  "bindR (Ok x) f = f x"
| "bindR (Throw e) f = Throw e"
| "bindR Diverge f = Diverge"

text \<open>\<^verbatim>\<open>xs.forEach(f)\<close> with the state the callback mutates passed along.\<close>

fun forEachR :: "('a \<Rightarrow> 's \<Rightarrow> 's res) \<Rightarrow> 'a list \<Rightarrow> 's \<Rightarrow> 's res" where
  "forEachR f [] s = Ok s"
| "forEachR f (x # xs) s = bindR (f x s) (forEachR f xs)"

fun truthy :: "jv \<Rightarrow> bool" where
  "truthy JUndef = False"
| "truthy JNull = False"
| "truthy (JBool b) = b"
| "truthy (JNum i) = (i \<noteq> 0)"
| "truthy (JStr s) = (s \<noteq> [])"
| "truthy (JArr xs) = True"
| "truthy (JObj kvs) = True"

fun nullish :: "jv \<Rightarrow> bool" where
  "nullish JUndef = True"
| "nullish JNull = True"
| "nullish v = False"

text \<open>\<^verbatim>\<open>a || b\<close>\<close>

definition js_or :: "jv \<Rightarrow> jv \<Rightarrow> jv" where
  "js_or a b = (if truthy a then a else b)"

subsection \<open>Own properties\<close>

definition digit_char :: "nat \<Rightarrow> char" where
  "digit_char d = ''0123456789'' ! d"

fun show_nat :: "nat \<Rightarrow> string" where
  "show_nat n = (if n < 10 then [digit_char n] else show_nat (n div 10) @ [digit_char (n mod 10)])"

declare show_nat.simps [simp del]

definition show_int :: "int \<Rightarrow> string" where
  "show_int i = (if i < 0 then CHR ''-'' # show_nat (nat (- i)) else show_nat (nat i))"

definition is_digit :: "char \<Rightarrow> bool" where
  "is_digit c = (c \<in> set ''0123456789'')"

definition digit_val :: "char \<Rightarrow> nat" where
  "digit_val c = of_char c - 48"

text \<open>An array index as a property key: the canonical decimal numeral.\<close>

definition parse_index :: "string \<Rightarrow> nat option" where
  "parse_index k =
     (if k \<noteq> [] \<and> list_all is_digit k \<and> (length k = 1 \<or> hd k \<noteq> CHR ''0'')
      then Some (foldl (\<lambda>a c. 10 * a + digit_val c) 0 k) else None)"

fun indexed_from :: "nat \<Rightarrow> 'a list \<Rightarrow> (string \<times> 'a) list" where
  "indexed_from i [] = []"
| "indexed_from i (x # xs) = (show_nat i, x) # indexed_from (Suc i) xs"

text \<open>\<^verbatim>\<open>Object.entries(v)\<close> of a value that is neither null nor undefined.\<close>

fun own_entries :: "jv \<Rightarrow> (string \<times> jv) list" where
  "own_entries (JObj kvs) = kvs"
| "own_entries (JArr xs) = indexed_from 0 xs"
| "own_entries (JStr s) = indexed_from 0 (map (\<lambda>c. JStr [c]) s)"
| "own_entries v = []"

text \<open>
  \<^verbatim>\<open>v[k]\<close> and \<^verbatim>\<open>v?.[k]\<close> where \<^verbatim>\<open>v\<close> is not nullish; for a nullish \<^verbatim>\<open>v\<close> it
  is the \<^verbatim>\<open>undefined\<close> of the optional chain (the plain read throws, see \<open>member\<close>).
\<close>

fun own_prop :: "jv \<Rightarrow> string \<Rightarrow> jv" where
  "own_prop (JObj kvs) k = (case map_of kvs k of Some v \<Rightarrow> v | None \<Rightarrow> JUndef)"
| "own_prop (JArr xs) k =
     (if k = ''length'' then JNum (int (length xs))
      else case parse_index k of
             Some i \<Rightarrow> if i < length xs then xs ! i else JUndef
           | None \<Rightarrow> JUndef)"
| "own_prop (JStr s) k =
     (if k = ''length'' then JNum (int (length s))
      else case parse_index k of
             Some i \<Rightarrow> if i < length s then JStr [s ! i] else JUndef
           | None \<Rightarrow> JUndef)"
| "own_prop v k = JUndef"

definition member :: "jv \<Rightarrow> string \<Rightarrow> jv res" where
  "member v k = (if nullish v then Throw TypeError else Ok (own_prop v k))"

text \<open>\<^verbatim>\<open>Object.entries\<close>, \<^verbatim>\<open>Object.keys\<close>: a TypeError on null and undefined.\<close>

definition Object_entries :: "jv \<Rightarrow> (string \<times> jv) list res" where
  "Object_entries v = (if nullish v then Throw TypeError else Ok (own_entries v))"

definition Object_keys :: "jv \<Rightarrow> string list res" where
  "Object_keys v = (if nullish v then Throw TypeError else Ok (map fst (own_entries v)))"

text \<open>\<^verbatim>\<open>typeof v === 'object' && v !== null\<close>\<close>

fun is_object :: "jv \<Rightarrow> bool" where
  "is_object (JObj kvs) = True"
| "is_object (JArr xs) = True"
| "is_object v = False"

text \<open>
  \<^verbatim>\<open>{ ...merged, ...ex }\<close>: the own properties of \<^verbatim>\<open>ex\<close> are defined on a copy of
  \<^verbatim>\<open>merged\<close>, a key that is there already keeps its place and takes the new value.
  A new key goes to the end; the runtime lists a new key that is an array index before
  the other keys, which no property below depends on.
\<close>

definition spread :: "(string \<times> jv) list \<Rightarrow> jv \<Rightarrow> (string \<times> jv) list" where
  "spread merged ex = foldl (\<lambda>acc kv. AList.update (fst kv) (snd kv) acc) merged (own_entries ex)"

text \<open>
  \<^verbatim>\<open>obj[key] = v\<close> on an object literal. Assigning to \<^verbatim>\<open>__proto__\<close> runs the
  inherited setter and creates no own property.
\<close>

definition obj_set :: "(string \<times> jv) list \<Rightarrow> string \<Rightarrow> jv \<Rightarrow> (string \<times> jv) list" where
  "obj_set obj key v = (if key = ''__proto__'' then obj else AList.update key v obj)"

fun contains :: "string \<Rightarrow> string \<Rightarrow> bool" where
  "contains [] key = (key = [])"
| "contains (c # cs) key = (take (length key) (c # cs) = key \<or> contains cs key)"

text \<open>
  \<^verbatim>\<open>required.includes(key)\<close> for a truthy \<^verbatim>\<open>required\<close>: the array method, the string
  method (a substring test), and a TypeError where there is no such method.
\<close>

fun js_includes :: "jv \<Rightarrow> string \<Rightarrow> bool res" where
  "js_includes (JArr xs) key = Ok (JStr key \<in> set xs)"
| "js_includes (JStr s) key = Ok (contains s key)"
| "js_includes v key = Throw TypeError"

subsection \<open>Reference resolution\<close>

fun replace_first :: "string \<Rightarrow> string \<Rightarrow> string \<Rightarrow> string" where
  "replace_first pat rep [] = (if pat = [] then rep else [])"
| "replace_first pat rep (c # cs) =
     (if take (length pat) (c # cs) = pat then rep @ drop (length pat) (c # cs)
      else c # replace_first pat rep cs)"

fun split_on :: "char \<Rightarrow> string \<Rightarrow> string list" where
  "split_on d [] = [[]]"
| "split_on d (c # cs) =
     (if c = d then [] # split_on d cs
      else case split_on d cs of
             w # ws \<Rightarrow> (c # w) # ws
           | [] \<Rightarrow> [[c]])"

text \<open>\<^verbatim>\<open>schema.$ref.replace('#/', '').split('/')\<close>\<close>

definition refPath :: "string \<Rightarrow> string list" where
  "refPath r = split_on CHR ''/'' (replace_first ''#/'' [] r)"

text \<open>\<^verbatim>\<open>for (const segment of refPath) target = target?.[segment]\<close>\<close>

definition walk :: "jv \<Rightarrow> string list \<Rightarrow> jv" where
  "walk root segs = foldl own_prop root segs"

definition resolve :: "jv \<Rightarrow> string \<Rightarrow> jv" where
  "resolve root r = walk root (refPath r)"

subsection \<open>A measure for the recursion inside one document\<close>

fun msize :: "jv \<Rightarrow> nat" where
  "msize (JArr xs) = Suc (sum_list (map (\<lambda>x. Suc (msize x)) xs))"
| "msize (JObj kvs) = Suc (sum_list (map (\<lambda>kv. Suc (msize (snd kv))) kvs))"
| "msize v = 0"

section \<open>The Example Synthesizer\<close>

text \<open>
  \<^verbatim>\<open>generateExample(schema, root, onlyRequired)\<close>. The first argument is the reading
  of the clock (\<^verbatim>\<open>new Date().toISOString()\<close>), the second the number of \<^verbatim>\<open>$ref\<close>
  hops the call may still nest: a hop with none left is \<open>Diverge\<close>. The recursion into
  the parts of a schema uses no budget.
\<close>

lemma bindR_assoc: "bindR (bindR m f) g = bindR m (\<lambda>x. bindR (f x) g)"
  by (cases m) simp_all

lemma bindR_cong [fundef_cong]:
  "m = m' \<Longrightarrow> (\<And>x. m' = Ok x \<Longrightarrow> f x = g x) \<Longrightarrow> bindR m f = bindR m' g"
  by (cases m') auto

lemma forEachR_cong [fundef_cong]:
  "xs = ys \<Longrightarrow> s = t \<Longrightarrow> (\<And>x u. x \<in> set ys \<Longrightarrow> f x u = g x u)
     \<Longrightarrow> forEachR f xs s = forEachR g ys t"
proof (induction ys arbitrary: xs s t)
  case Nil
  then show ?case by simp
next
  case (Cons y ys)
  have step: "f y t = g y t" using Cons.prems by simp
  have rest: "forEachR f ys u = forEachR g ys u" for u
    using Cons.IH [of ys u u] Cons.prems by simp
  show ?case using Cons.prems step rest by (cases "g y t") simp_all
qed

function generateExample :: "string \<Rightarrow> nat \<Rightarrow> jv \<Rightarrow> jv \<Rightarrow> bool \<Rightarrow> jv res" where
  "generateExample now n schema root onlyRequired =
    (if \<not> truthy schema then Ok JUndef
     else if truthy (own_prop schema ''$ref'') then
       (case own_prop schema ''$ref'' of
          JStr r \<Rightarrow>
            (let target = resolve root r in
             if truthy target then
               (case n of
                  0 \<Rightarrow> Diverge
                | Suc m \<Rightarrow> generateExample now m target root onlyRequired)
             else Ok JUndef)
        | _ \<Rightarrow> Throw TypeError)
     else if truthy (own_prop schema ''allOf'') then
       (case own_prop schema ''allOf'' of
          JArr subs \<Rightarrow>
            bindR (forEachR (\<lambda>sub merged.
                     bindR (generateExample now n sub root onlyRequired) (\<lambda>ex.
                       Ok (if is_object ex then spread merged ex else merged)))
                   subs [])
              (\<lambda>merged. Ok (JObj merged))
        | _ \<Rightarrow> Throw TypeError)
     else if truthy (own_prop schema ''anyOf'') \<or> truthy (own_prop schema ''oneOf'') then
       generateExample now n
         (own_prop (js_or (own_prop schema ''anyOf'') (own_prop schema ''oneOf'')) ''0'') root onlyRequired
     else if own_prop schema ''example'' \<noteq> JUndef then Ok (own_prop schema ''example'')
     else if own_prop schema ''default'' \<noteq> JUndef then Ok (own_prop schema ''default'')
     else if own_prop schema ''type'' = JStr ''object'' \<or> truthy (own_prop schema ''properties'') then
       (let props = js_or (own_prop schema ''properties'') (JObj []);
            required = js_or (own_prop schema ''required'') (JArr [])
        in bindR (forEachR (\<lambda>kv obj.
                    bindR (if onlyRequired then js_includes required (fst kv) else Ok True) (\<lambda>inc.
                      if \<not> inc then Ok obj
                      else bindR (generateExample now n (snd kv) root onlyRequired) (\<lambda>v.
                             Ok (obj_set obj (fst kv) v))))
                  (own_entries props) [])
             (\<lambda>obj. Ok (JObj obj)))
     else if own_prop schema ''type'' = JStr ''array'' then
       bindR (generateExample now n (own_prop schema ''items'') root onlyRequired) (\<lambda>item.
         Ok (JArr [item]))
     else if truthy (own_prop schema ''enum'') then Ok (own_prop (own_prop schema ''enum'') ''0'')
     else if own_prop schema ''type'' = JStr ''string'' then
       (if own_prop schema ''format'' = JStr ''date-time'' then Ok (JStr now)
        else if own_prop schema ''format'' = JStr ''uri'' then Ok (JStr ''https://example.com'')
        else Ok (JStr ''string''))
     else if own_prop schema ''type'' = JStr ''integer'' \<or> own_prop schema ''type'' = JStr ''number''
       then Ok (JNum 0)
     else if own_prop schema ''type'' = JStr ''boolean'' then Ok (JBool True)
     else Ok JNull)"
  by pat_completeness auto

lemma msize_elem: "x \<in> set xs \<Longrightarrow> msize x < sum_list (map (\<lambda>x. Suc (msize x)) xs)"
  by (induction xs) auto

lemma msize_snd_elem: "kv \<in> set kvs \<Longrightarrow> msize (snd kv) < sum_list (map (\<lambda>kv. Suc (msize (snd kv))) kvs)"
  by (induction kvs) auto

lemma snd_indexed_from: "kv \<in> set (indexed_from i xs) \<Longrightarrow> snd kv \<in> set xs"
  by (induction xs arbitrary: i) auto

lemma msize_own_prop_le: "msize (own_prop v k) \<le> msize v"
proof (cases v)
  case (JArr xs)
  then show ?thesis
    using msize_elem [of "xs ! i" xs for i]
    by (auto split: option.splits simp: less_imp_le_nat le_SucI)
next
  case (JObj kvs)
  then show ?thesis
    using msize_snd_elem [of "(k, x)" kvs for x]
    by (auto split: option.splits dest!: map_of_SomeD simp: less_imp_le_nat le_SucI)
qed (auto split: option.splits)

lemma msize_own_prop_less: "is_object v \<Longrightarrow> msize (own_prop v k) < msize v"
proof (cases v)
  case (JArr xs)
  then show ?thesis
    using msize_elem [of "xs ! i" xs for i]
    by (auto split: option.splits simp: less_SucI)
next
  case (JObj kvs)
  then show ?thesis
    using msize_snd_elem [of "(k, x)" kvs for x]
    by (auto split: option.splits dest!: map_of_SomeD simp: less_SucI)
qed auto

lemma msize_own_entries:
  assumes "kv \<in> set (own_entries v)"
  shows "msize (snd kv) \<le> msize v"
proof (cases v)
  case (JArr xs)
  then have "snd kv \<in> set xs"
    using assms snd_indexed_from [of kv 0 xs] by simp
  then show ?thesis
    using JArr msize_elem [of "snd kv" xs] by simp
next
  case (JObj kvs)
  then show ?thesis
    using assms msize_snd_elem [of kv kvs] by simp
next
  case (JStr s)
  then have "snd kv \<in> set (map (\<lambda>c. JStr [c]) s)"
    using assms snd_indexed_from [of kv 0 "map (\<lambda>c. JStr [c]) s"] by simp
  then show ?thesis by auto
qed (use assms in auto)

text \<open>A schema keyword is read as truthy from an object only.\<close>

definition keyword :: "string \<Rightarrow> bool" where
  "keyword k = (k \<noteq> ''length'' \<and> parse_index k = None)"

lemma truthy_keyword_object: "truthy (own_prop v k) \<Longrightarrow> keyword k \<Longrightarrow> is_object v"
  by (cases v) (auto simp: keyword_def)

lemma schema_keywords [simp]:
  "keyword ''$ref''" "keyword ''allOf''" "keyword ''anyOf''" "keyword ''oneOf''"
  "keyword ''properties''" "keyword ''type''" "keyword ''items''"
  by (simp_all add: keyword_def parse_index_def is_digit_def)

lemma msize_keyword_less:
  "truthy (own_prop v k) \<Longrightarrow> keyword k \<Longrightarrow> msize (own_prop v k) < msize v"
  by (rule msize_own_prop_less) (rule truthy_keyword_object)

termination generateExample
proof (relation "inv_image (less_than <*lex*> less_than)
    (\<lambda>(now, n, schema, root, onlyRequired). (n, msize schema))", goal_cases)
  case 1
  then show ?case by (intro wf_inv_image wf_lex_prod wf_less_than)
next
  case (2 now n schema root onlyRequired x5 target m)
  then show ?case by simp
next
  case (3 now n schema root onlyRequired subs sub merged)
  have "msize sub < msize (own_prop schema ''allOf'')"
    using 3 msize_elem [of sub subs] by simp
  moreover have "msize (own_prop schema ''allOf'') < msize schema"
    using 3 msize_keyword_less [of schema "''allOf''"] by simp
  ultimately show ?case by simp
next
  case (4 now n schema root onlyRequired)
  let ?alts = "js_or (own_prop schema ''anyOf'') (own_prop schema ''oneOf'')"
  have "msize ?alts < msize schema"
    using 4 msize_keyword_less [of schema "''anyOf''"] msize_keyword_less [of schema "''oneOf''"]
    by (auto simp: js_or_def)
  moreover have "msize (own_prop ?alts ''0'') \<le> msize ?alts"
    by (rule msize_own_prop_le)
  ultimately show ?case by simp
next
  case (5 now n schema root onlyRequired props required kv obj)
  have "truthy (own_prop schema ''properties'')"
    using 5 by (auto simp: js_or_def split: if_splits)
  then have "msize props < msize schema"
    using 5 msize_keyword_less [of schema "''properties''"] by (simp add: js_or_def)
  moreover have "msize (snd kv) \<le> msize props"
    using 5 by (simp add: msize_own_entries)
  ultimately show ?case by simp
next
  case (6 now n schema root onlyRequired)
  then have "truthy (own_prop schema ''type'')" by simp
  then show ?case using msize_keyword_less [of schema "''type''"]
    msize_own_prop_less [of schema "''items''"] truthy_keyword_object [of schema "''type''"] by simp
qed

declare generateExample.simps [simp del]

section \<open>Text\<close>

text \<open>\<^verbatim>\<open>parts.join(sep)\<close> on strings.\<close>

fun join :: "string \<Rightarrow> string list \<Rightarrow> string" where
  "join sep [] = []"
| "join sep [x] = x"
| "join sep (x # y # ys) = x @ sep @ join sep (y # ys)"

text \<open>
  \<^verbatim>\<open>String(v)\<close>, the conversion a template literal applies. An object prints as
  \<^verbatim>\<open>[object Object]\<close> (one with an own \<^verbatim>\<open>toString\<close> or \<^verbatim>\<open>valueOf\<close> key is
  outside this embedding); an array joins its elements with commas.
\<close>

fun tostr :: "jv \<Rightarrow> string" where
  "tostr JUndef = ''undefined''"
| "tostr JNull = ''null''"
| "tostr (JBool b) = (if b then ''true'' else ''false'')"
| "tostr (JNum i) = show_int i"
| "tostr (JStr s) = s"
| "tostr (JArr xs) = join '','' (map (\<lambda>x. if nullish x then [] else tostr x) xs)"
| "tostr (JObj kvs) = ''[object Object]''"

definition hex_char :: "nat \<Rightarrow> char" where
  "hex_char d = ''0123456789abcdef'' ! d"

definition backslash :: char where
  "backslash = CHR 0x5C"

definition dquote :: char where
  "dquote = CHR 0x22"

definition newline :: char where
  "newline = CHR 0x0A"

definition json_escape :: "char \<Rightarrow> string" where
  "json_escape c =
     (if c = dquote then [backslash, dquote]
      else if c = backslash then [backslash, backslash]
      else if c = CHR 0x08 then [backslash, CHR ''b'']
      else if c = CHR 0x0C then [backslash, CHR ''f'']
      else if c = CHR 0x0A then [backslash, CHR ''n'']
      else if c = CHR 0x0D then [backslash, CHR ''r'']
      else if c = CHR 0x09 then [backslash, CHR ''t'']
      else if (of_char c :: nat) < 32
        then [backslash, CHR ''u'', CHR ''0'', CHR ''0'',
              hex_char (of_char c div 16), hex_char (of_char c mod 16)]
      else [c])"

definition json_quote :: "string \<Rightarrow> string" where
  "json_quote s = [dquote] @ concat (map json_escape s) @ [dquote]"

definition wrap :: "string \<Rightarrow> string \<Rightarrow> string \<Rightarrow> string \<Rightarrow> string list \<Rightarrow> string" where
  "wrap opn cls gap ind partial =
     (if partial = [] then opn @ cls
      else if gap = [] then opn @ join '','' partial @ cls
      else opn @ [newline] @ ind @ gap @ join ('','' @ [newline] @ ind @ gap) partial
             @ [newline] @ ind @ cls)"

fun serialize :: "string \<Rightarrow> string \<Rightarrow> jv \<Rightarrow> string option" where
  "serialize gap ind JUndef = None"
| "serialize gap ind JNull = Some ''null''"
| "serialize gap ind (JBool b) = Some (if b then ''true'' else ''false'')"
| "serialize gap ind (JNum i) = Some (show_int i)"
| "serialize gap ind (JStr s) = Some (json_quote s)"
| "serialize gap ind (JArr xs) =
     Some (wrap ''['' '']'' gap ind
       (map (\<lambda>x. case serialize gap (ind @ gap) x of None \<Rightarrow> ''null'' | Some t \<Rightarrow> t) xs))"
| "serialize gap ind (JObj kvs) =
     Some (wrap ''{'' ''}'' gap ind
       (concat (map (\<lambda>kv. case serialize gap (ind @ gap) (snd kv) of
                         None \<Rightarrow> []
                       | Some t \<Rightarrow>
                           [json_quote (fst kv) @ '':'' @ (if gap = [] then [] else '' '') @ t])
                kvs)))"

text \<open>\<^verbatim>\<open>JSON.stringify(v, null, 2)\<close> and \<^verbatim>\<open>JSON.stringify(v)\<close>; \<open>None\<close> is \<^verbatim>\<open>undefined\<close>.\<close>

definition stringify_pretty :: "jv \<Rightarrow> string option" where
  "stringify_pretty v = serialize ''  '' [] v"

definition stringify :: "jv \<Rightarrow> string option" where
  "stringify v = serialize [] [] v"

text \<open>A value of \<^verbatim>\<open>JSON.stringify\<close> inside a template literal.\<close>

definition in_template :: "string option \<Rightarrow> string" where
  "in_template t = (case t of None \<Rightarrow> ''undefined'' | Some u \<Rightarrow> u)"

section \<open>The Schema Describer\<close>

text \<open>\<^verbatim>\<open>'  '.repeat(depth)\<close>\<close>

definition indent :: "nat \<Rightarrow> string" where
  "indent depth = concat (replicate depth ''  '')"

text \<open>
  The metadata after the type, which the code assembles three times in the same way (for
  a parameter, a property and a primitive schema): format, min, max, default, enum.
\<close>

definition constraints :: "jv \<Rightarrow> jv \<Rightarrow> jv \<Rightarrow> jv \<Rightarrow> jv \<Rightarrow> string" where
  "constraints format mn mx def enums =
     (if truthy format then '', format: `'' @ tostr format @ ''`'' else [])
     @ (if mn \<noteq> JUndef then '', min: `'' @ tostr mn @ ''`'' else [])
     @ (if mx \<noteq> JUndef then '', max: `'' @ tostr mx @ ''`'' else [])
     @ (if def \<noteq> JUndef then '', default: `'' @ in_template (stringify def) @ ''`'' else [])
     @ (case enums of
          JArr es \<Rightarrow>
            '', enum: ['' @ join '', '' (map (\<lambda>e. ''`'' @ in_template (stringify e) @ ''`'') es)
              @ '']''
        | _ \<Rightarrow> [])"

definition description_suffix :: "jv \<Rightarrow> string" where
  "description_suffix v =
     (if truthy (own_prop v ''description'') then '': '' @ tostr (own_prop v ''description'')
      else [])"

definition property_line :: "nat \<Rightarrow> string \<Rightarrow> bool \<Rightarrow> jv \<Rightarrow> string" where
  "property_line depth key isRequired val =
     (let reqLabel = (if isRequired then ''**Required**'' else ''Optional'');
          type = js_or (own_prop val ''type'')
                   (if truthy (own_prop val ''$ref'') then JStr ''object'' else JStr ''unknown'');
          metadata = ''`'' @ tostr type @ ''`''
            @ constraints (own_prop val ''format'') (own_prop val ''minimum'')
                (own_prop val ''maximum'') (own_prop val ''default'') (own_prop val ''enum'')
            @ (if own_prop val ''example'' \<noteq> JUndef
               then '', example: `'' @ in_template (stringify (own_prop val ''example'')) @ ''`''
               else [])
      in indent depth @ ''- `'' @ key @ ''` ['' @ reqLabel @ ''] ('' @ metadata @ '')''
           @ description_suffix val)"

definition array_line :: "nat \<Rightarrow> jv \<Rightarrow> string" where
  "array_line depth schema =
     (let metadata = ''array''
            @ (if own_prop schema ''default'' \<noteq> JUndef
               then '', default: `'' @ in_template (stringify (own_prop schema ''default'')) @ ''`''
               else [])
      in indent depth @ ''- `Array` ('' @ metadata @ '')'' @ description_suffix schema)"

definition primitive_line :: "nat \<Rightarrow> jv \<Rightarrow> string" where
  "primitive_line depth schema =
     (let metadata = ''`'' @ tostr (own_prop schema ''type'') @ ''`''
            @ constraints (own_prop schema ''format'') (own_prop schema ''minimum'')
                (own_prop schema ''maximum'') (own_prop schema ''default'')
                (own_prop schema ''enum'')
      in indent depth @ ''- ('' @ metadata @ '')'' @ description_suffix schema)"

text \<open>
  \<^verbatim>\<open>parseSchema(schema, root, lines, depth)\<close> pushes onto \<^verbatim>\<open>lines\<close>; the model returns
  the list after the call. The first argument bounds the nesting of \<^verbatim>\<open>$ref\<close> hops as
  in \<open>generateExample\<close>.
\<close>

function parseSchema :: "nat \<Rightarrow> jv \<Rightarrow> jv \<Rightarrow> string list \<Rightarrow> nat \<Rightarrow> string list res" where
  "parseSchema n schema root lines depth =
    (if \<not> truthy schema then Ok lines
     else if truthy (own_prop schema ''$ref'') then
       (case own_prop schema ''$ref'' of
          JStr r \<Rightarrow>
            (let target = resolve root r in
             if truthy target then
               (case n of
                  0 \<Rightarrow> Diverge
                | Suc m \<Rightarrow> parseSchema m target root lines depth)
             else Ok (lines @ [indent depth @ ''- `Ref: '' @ r @ ''`'']))
        | _ \<Rightarrow> Throw TypeError)
     else if truthy (own_prop schema ''allOf'') \<or> truthy (own_prop schema ''anyOf'')
             \<or> truthy (own_prop schema ''oneOf'') then
       (let label = (if truthy (own_prop schema ''allOf'') then ''All of:''
                     else if truthy (own_prop schema ''anyOf'') then ''Any of:''
                     else ''One of:'');
            lines1 = lines @ [indent depth @ ''- *'' @ label @ ''*''];
            subSchemas = js_or (own_prop schema ''allOf'')
                           (js_or (own_prop schema ''anyOf'') (own_prop schema ''oneOf''))
        in case subSchemas of
             JArr subs \<Rightarrow>
               forEachR (\<lambda>sub ls. parseSchema n sub root ls (depth + 1)) subs lines1
           | _ \<Rightarrow> Throw TypeError)
     else if own_prop schema ''type'' = JStr ''object'' \<or> truthy (own_prop schema ''properties'') then
       (let props = js_or (own_prop schema ''properties'') (JObj []);
            requiredFields = js_or (own_prop schema ''required'') (JArr [])
        in forEachR (\<lambda>kv ls.
             bindR (js_includes requiredFields (fst kv)) (\<lambda>isRequired.
               if nullish (snd kv) then Throw TypeError
               else if own_prop (snd kv) ''type'' = JStr ''object''
                       \<or> truthy (own_prop (snd kv) ''properties'')
                       \<or> truthy (own_prop (snd kv) ''$ref'') then
                 parseSchema n (snd kv) root
                   (ls @ [property_line depth (fst kv) isRequired (snd kv)]) (depth + 1)
               else if own_prop (snd kv) ''type'' = JStr ''array''
                       \<and> truthy (own_prop (snd kv) ''items'') then
                 parseSchema n (own_prop (snd kv) ''items'') root
                   (ls @ [property_line depth (fst kv) isRequired (snd kv),
                          indent (depth + 1) @ ''*Items:*''])
                   (depth + 2)
               else Ok (ls @ [property_line depth (fst kv) isRequired (snd kv)])))
             (own_entries props) lines)
     else if own_prop schema ''type'' = JStr ''array'' \<and> truthy (own_prop schema ''items'') then
       parseSchema n (own_prop schema ''items'') root (lines @ [array_line depth schema])
         (depth + 1)
     else if truthy (own_prop schema ''type'') then Ok (lines @ [primitive_line depth schema])
     else Ok lines)"
  by pat_completeness auto

termination parseSchema
proof (relation "inv_image (less_than <*lex*> less_than)
    (\<lambda>(n, schema, root, lines, depth). (n, msize schema))", goal_cases)
  case 1
  then show ?case by (intro wf_inv_image wf_lex_prod wf_less_than)
next
  case (2 n schema root lines depth r target m)
  then show ?case by simp
next
  case (3 n schema root lines depth label lines1 subSchemas subs sub ls)
  have "sub \<in> set subs" and eq: "subSchemas = JArr subs"
    using 3 by simp_all
  then have "msize sub < msize subSchemas"
    using msize_elem [of sub subs] by simp
  moreover have "msize subSchemas < msize schema"
    using 3 msize_keyword_less [of schema "''allOf''"]
      msize_keyword_less [of schema "''anyOf''"] msize_keyword_less [of schema "''oneOf''"]
    by (auto simp: js_or_def split: if_splits)
  ultimately show ?case by simp
next
  case (4 n schema root lines depth props requiredFields kv ls isRequired)
  have "truthy (own_prop schema ''properties'')"
    using 4 by (auto simp: js_or_def split: if_splits)
  then have "msize props < msize schema"
    using 4 msize_keyword_less [of schema "''properties''"] by (simp add: js_or_def)
  moreover have "msize (snd kv) \<le> msize props"
    using 4 by (simp add: msize_own_entries)
  ultimately show ?case by simp
next
  case (5 n schema root lines depth props requiredFields kv ls isRequired)
  have "truthy (own_prop schema ''properties'')"
    using 5 by (auto simp: js_or_def split: if_splits)
  then have "msize props < msize schema"
    using 5 msize_keyword_less [of schema "''properties''"] by (simp add: js_or_def)
  moreover have "msize (snd kv) \<le> msize props"
    using 5 by (simp add: msize_own_entries)
  moreover have "msize (own_prop (snd kv) ''items'') \<le> msize (snd kv)"
    by (rule msize_own_prop_le)
  ultimately show ?case by simp
next
  case (6 n schema root lines depth)
  then show ?case using msize_keyword_less [of schema "''items''"] by simp
qed

declare parseSchema.simps [simp del]

section \<open>The Document Assembler\<close>

text \<open>
  \<^verbatim>\<open>method.toLowerCase()\<close>, \<^verbatim>\<open>method.toUpperCase()\<close> on the ASCII letters.
\<close>

definition to_lower :: "char \<Rightarrow> char" where
  "to_lower c =
     (case map_of (zip ''ABCDEFGHIJKLMNOPQRSTUVWXYZ'' ''abcdefghijklmnopqrstuvwxyz'') c of
        Some l \<Rightarrow> l
      | None \<Rightarrow> c)"

definition to_upper :: "char \<Rightarrow> char" where
  "to_upper c =
     (case map_of (zip ''abcdefghijklmnopqrstuvwxyz'' ''ABCDEFGHIJKLMNOPQRSTUVWXYZ'') c of
        Some u \<Rightarrow> u
      | None \<Rightarrow> c)"

definition toLowerCase :: "string \<Rightarrow> string" where
  "toLowerCase s = map to_lower s"

definition toUpperCase :: "string \<Rightarrow> string" where
  "toUpperCase s = map to_upper s"

text \<open>
  \<^verbatim>\<open>x > 0\<close> and \<^verbatim>\<open>x === 0\<close> for \<^verbatim>\<open>x = parameters.length\<close>. A length that is a
  string, an array or an object (an object \<^verbatim>\<open>parameters\<close> with an own key
  \<^verbatim>\<open>length\<close>) is outside this embedding and compares as not positive.
\<close>

fun js_gt0 :: "jv \<Rightarrow> bool" where
  "js_gt0 (JNum i) = (0 < i)"
| "js_gt0 (JBool b) = b"
| "js_gt0 v = False"

text \<open>An element of \<^verbatim>\<open>lines\<close> as \<^verbatim>\<open>lines.join\<close> prints it.\<close>

definition line_of :: "jv \<Rightarrow> string" where
  "line_of v = (if nullish v then [] else tostr v)"

definition line_of_text :: "string option \<Rightarrow> string" where
  "line_of_text t = (case t of None \<Rightarrow> [] | Some u \<Rightarrow> u)"

definition first_value :: "jv \<Rightarrow> jv" where
  "first_value content = (case own_entries content of [] \<Rightarrow> JUndef | kv # rest \<Rightarrow> snd kv)"

text \<open>
  \<^verbatim>\<open>content['application/json']?.schema || content['*/*']?.schema
    || (Object.values(content)[0] as any)?.schema\<close>
\<close>

definition content_schema :: "jv \<Rightarrow> jv" where
  "content_schema content =
     js_or (js_or (own_prop (own_prop content ''application/json'') ''schema'')
                  (own_prop (own_prop content ''*/*'') ''schema''))
           (own_prop (first_value content) ''schema'')"

text \<open>The callback of \<^verbatim>\<open>parameters.forEach\<close>.\<close>

definition parameter_line :: "jv \<Rightarrow> string res" where
  "parameter_line p =
     (if nullish p then Throw TypeError
      else
        let schema = js_or (own_prop p ''schema'') (JObj []);
            type = js_or (js_or (own_prop schema ''type'') (own_prop p ''type'')) (JStr ''unknown'');
            def = (if own_prop schema ''default'' \<noteq> JUndef then own_prop schema ''default''
                   else own_prop p ''default'');
            enums = js_or (own_prop schema ''enum'') (own_prop p ''enum'');
            format = js_or (own_prop schema ''format'') (own_prop p ''format'');
            mn = (if own_prop schema ''minimum'' \<noteq> JUndef then own_prop schema ''minimum''
                  else own_prop p ''minimum'');
            mx = (if own_prop schema ''maximum'' \<noteq> JUndef then own_prop schema ''maximum''
                  else own_prop p ''maximum'');
            metadata = tostr (own_prop p ''in'') @ '', `'' @ tostr type @ ''`''
                         @ constraints format mn mx def enums;
            reqStr = (if truthy (own_prop p ''required'') then ''**Required**'' else ''Optional'')
        in Ok (''- `'' @ tostr (own_prop p ''name'') @ ''` ['' @ reqStr @ ''] ('' @ metadata @ ''): ''
                 @ tostr (js_or (own_prop p ''description'') (JStr ''No description''))))"

text \<open>The input section of an operation: the new lines and \<^verbatim>\<open>bodySchema\<close>.\<close>

definition input_section :: "nat \<Rightarrow> jv \<Rightarrow> jv \<Rightarrow> string list \<Rightarrow> (string list \<times> jv) res" where
  "input_section n spec op lines0 =
     (let lines1 = lines0 @ [''#### Input''];
          parameters = js_or (own_prop op ''parameters'') (JArr [])
      in bindR (if js_gt0 (own_prop parameters ''length'') then
                  (case parameters of
                     JArr ps \<Rightarrow>
                       forEachR (\<lambda>p ls. bindR (parameter_line p) (\<lambda>l. Ok (ls @ [l]))) ps
                         (lines1 @ [''**Parameters:**''])
                   | _ \<Rightarrow> Throw TypeError)
                else Ok lines1) (\<lambda>lines2.
         let requestBody = own_prop op ''requestBody'' in
         bindR (if truthy requestBody then
                  (let lines3 = lines2 @ [''**Request Body:**''];
                       content = js_or (own_prop requestBody ''content'') (JObj []);
                       bodySchema = content_schema content
                   in if truthy bodySchema then
                        bindR (parseSchema n bodySchema spec lines3 0) (\<lambda>lines4.
                          Ok (lines4, bodySchema))
                      else
                        let types = join '', '' (map fst (own_entries content)) in
                        Ok (lines3 @ [''- *Content types: ''
                                       @ (if types \<noteq> [] then types else ''Unknown'')
                                       @ '' (No schema defined)*''], bodySchema))
                else Ok (lines2, JNull)) (\<lambda>(lines5, bodySchema).
           let lines6 = (if own_prop parameters ''length'' = JNum 0 \<and> \<not> truthy requestBody
                         then lines5 @ [''- No input parameters required.''] else lines5)
           in Ok (lines6 @ [[]], bodySchema))))"

text \<open>The examples of the request body, for a truthy \<^verbatim>\<open>bodySchema\<close>.\<close>

definition input_examples :: "string \<Rightarrow> nat \<Rightarrow> jv \<Rightarrow> jv \<Rightarrow> string list \<Rightarrow> string list res" where
  "input_examples now n spec bodySchema lines0 =
     bindR (generateExample now n bodySchema spec True) (\<lambda>requiredEx.
     bindR (generateExample now n bodySchema spec False) (\<lambda>fullEx.
     bindR (Object_keys requiredEx) (\<lambda>keys.
       let lines1 = (if keys \<noteq> [] then
                       lines0 @ [''**Required Parameters Example**:'', ''```json'',
                                 line_of_text (stringify_pretty requiredEx), ''```'', []]
                     else lines0)
       in Ok (lines1 @ [''**Full Example**:'', ''```json'',
                        line_of_text (stringify_pretty fullEx), ''```'', []]))))"

text \<open>
  The value of the Example Response block:
  \<^verbatim>\<open>(content['application/json']?.example
     || content['application/json']?.examples?.[0]?.value)
    || generateExample(jsonSchema, spec, false)\<close>
\<close>

definition respEx :: "string \<Rightarrow> nat \<Rightarrow> jv \<Rightarrow> jv \<Rightarrow> jv \<Rightarrow> jv res" where
  "respEx now n content jsonSchema spec =
     (let given = js_or (own_prop (own_prop content ''application/json'') ''example'')
                    (own_prop (own_prop (own_prop (own_prop content ''application/json'')
                       ''examples'') ''0'') ''value'')
      in if truthy given then Ok given else generateExample now n jsonSchema spec False)"

text \<open>\<^verbatim>\<open>text.split('\n').map(l => '  ' + l).join('\n')\<close>\<close>

definition reindent :: "string \<Rightarrow> string" where
  "reindent t = join [newline] (map (\<lambda>l. ''  '' @ l) (split_on newline t))"

text \<open>The callback of \<^verbatim>\<open>Object.entries(responses).forEach\<close>.\<close>

definition response_block :: "string \<Rightarrow> nat \<Rightarrow> jv \<Rightarrow> string \<times> jv \<Rightarrow> string list \<Rightarrow> string list res" where
  "response_block now n spec cr lines0 =
     (let code = fst cr; response = snd cr in
      if nullish response then Throw TypeError
      else
        let desc = js_or (own_prop response ''description'') (JStr ''No description'');
            lines1 = lines0 @ [''**Response '' @ code @ '': '' @ tostr desc @ ''**''];
            content = js_or (own_prop response ''content'') (JObj []);
            jsonSchema = content_schema content
        in bindR (if truthy jsonSchema then
                    bindR (parseSchema n jsonSchema spec lines1 1) (\<lambda>lines2.
                    bindR (respEx now n content jsonSchema spec) (\<lambda>ex.
                      if truthy ex \<and> own_entries ex \<noteq> [] then
                        (case stringify_pretty ex of
                           None \<Rightarrow> Throw TypeError
                         | Some t \<Rightarrow>
                             Ok (lines2 @ [''  **Example Response**:'', ''  ```json'',
                                           reindent t, ''  ```'']))
                      else Ok lines2))
                  else if truthy (own_prop response ''$ref'') then
                    parseSchema n response spec lines1 1
                  else Ok (lines1 @ [''  - No response body schema defined.'']))
             (\<lambda>lines3. Ok (lines3 @ [[]])))"

definition output_section :: "string \<Rightarrow> nat \<Rightarrow> jv \<Rightarrow> jv \<Rightarrow> string list \<Rightarrow> string list res" where
  "output_section now n spec op lines0 =
     (let lines1 = lines0 @ [''#### Output''];
          responses = js_or (own_prop op ''responses'') (JObj [])
      in if own_entries responses \<noteq> [] then
           forEachR (response_block now n spec) (own_entries responses) lines1
         else Ok (lines1 @ [''- No response documentation provided.'']))"

definition usage_examples ::
  "string \<Rightarrow> nat \<Rightarrow> jv \<Rightarrow> string \<Rightarrow> string \<Rightarrow> string \<Rightarrow> jv \<Rightarrow> string list \<Rightarrow> string list res" where
  "usage_examples now n spec baseUrl path method bodySchema lines0 =
     (let curlCmd = ''curl --request '' @ toUpperCase method @ '' '' @ [backslash, newline]
                      @ ''  --url '' @ baseUrl @ path @ '' '' @ [backslash, newline]
                      @ ''  --header '' @ [dquote] @ ''Content-Type: application/json'' @ [dquote]
      in bindR (if truthy bodySchema then
                  bindR (generateExample now n bodySchema spec True) (\<lambda>reqEx.
                    Ok (curlCmd @ '' '' @ [backslash, newline] @ ''  --data ''
                          @ [CHR 0x27] @ in_template (stringify_pretty reqEx) @ [CHR 0x27]))
                else Ok curlCmd) (\<lambda>cmd.
           Ok (lines0 @ [''#### Usage Examples'', [], ''##### cURL'', ''```bash'', cmd, ''```'', [],
                         ''---'', []])))"

text \<open>The callback of the inner \<^verbatim>\<open>forEach\<close>: one method of one path.\<close>

definition operation_block ::
  "string \<Rightarrow> nat \<Rightarrow> jv \<Rightarrow> string \<Rightarrow> string \<Rightarrow> string \<times> jv \<Rightarrow> string list \<Rightarrow> string list res" where
  "operation_block now n spec baseUrl path md lines0 =
     (let method = fst md; op = snd md in
      if toLowerCase method \<in> set [''get'', ''post'', ''put'', ''delete'', ''patch'', ''options'', ''head'']
      then
        if nullish op then Throw TypeError
        else
          let summary = js_or (js_or (own_prop op ''summary'') (own_prop op ''operationId''))
                          (JStr ''No summary'');
              lines1 = lines0 @ [''### '' @ toUpperCase method @ '' '' @ path @ '' - '' @ tostr summary];
              lines2 = (if truthy (own_prop op ''description'')
                        then lines1 @ [line_of (own_prop op ''description'')] else lines1) @ [[]]
          in bindR (input_section n spec op lines2) (\<lambda>(lines3, bodySchema).
             bindR (if truthy bodySchema then input_examples now n spec bodySchema lines3
                    else Ok lines3) (\<lambda>lines4.
             bindR (output_section now n spec op lines4) (\<lambda>lines5.
               usage_examples now n spec baseUrl path method bodySchema lines5)))
      else Ok lines0)"

text \<open>
  \<^verbatim>\<open>localConvertToLlmTxt(jsonContent)\<close>. The argument is what \<^verbatim>\<open>JSON.parse\<close> made
  of the text: \<open>None\<close> when it threw.
\<close>

definition localConvertToLlmTxt :: "string \<Rightarrow> nat \<Rightarrow> jv option \<Rightarrow> string res" where
  "localConvertToLlmTxt now n parsed =
     (case parsed of
        None \<Rightarrow> Throw InvalidJSON
      | Some spec \<Rightarrow>
          bindR (member spec ''info'') (\<lambda>info.
          bindR (member info ''title'') (\<lambda>title.
          bindR (member info ''description'') (\<lambda>description.
            let lines0 = [''# '' @ tostr (js_or title (JStr ''API Documentation'')),
                          tostr (js_or description (JStr ''No description provided.'')),
                          [], ''## Endpoints'', []];
                paths = js_or (own_prop spec ''paths'') (JObj []);
                baseUrl = tostr (js_or (own_prop (own_prop (own_prop spec ''servers'') ''0'') ''url'')
                                   (JStr ''https://api.example.com''))
            in bindR (forEachR (\<lambda>pm ls.
                        bindR (Object_entries (snd pm)) (\<lambda>methods.
                          forEachR (operation_block now n spec baseUrl (fst pm)) methods ls))
                      (own_entries paths) lines0)
                 (\<lambda>lines. Ok (join [newline] lines))))))"

section \<open>Properties of the Example Synthesizer\<close>

lemma parse_index_0 [simp]: "parse_index ''0'' = Some 0"
  by (simp add: parse_index_def is_digit_def digit_val_def)

definition empty_anyOf :: jv where
  "empty_anyOf = JObj [(''anyOf'', JArr []), (''oneOf'', JArr [JObj [(''type'', JStr ''string'')]])]"

text \<open>
  C5, as the code has it. A schema with a truthy \<^verbatim>\<open>anyOf\<close> or \<^verbatim>\<open>oneOf\<close> and
  neither \<^verbatim>\<open>$ref\<close> nor \<^verbatim>\<open>allOf\<close>: the example is the example of the element
  \<^verbatim>\<open>0\<close> of the list the code selects, \<^verbatim>\<open>schema.anyOf || schema.oneOf\<close>, with the
  same flag. That is the first listed alternative when the selected list is not empty,
  whatever the other alternatives are; an empty \<^verbatim>\<open>anyOf\<close> is truthy and is the list
  selected, with the example \<^verbatim>\<open>undefined\<close>, also when \<^verbatim>\<open>oneOf\<close> lists alternatives.
  The equations cover the value, a thrown error and a recursion that does not return
  alike.
\<close>

theorem generateExample_anyOf_oneOf_first:
  assumes "\<not> truthy (own_prop schema ''$ref'')"
    and "\<not> truthy (own_prop schema ''allOf'')"
    and "truthy (own_prop schema ''anyOf'') \<or> truthy (own_prop schema ''oneOf'')"
  shows "generateExample now n schema root onlyRequired
           = generateExample now n
               (own_prop (js_or (own_prop schema ''anyOf'') (own_prop schema ''oneOf'')) ''0'')
               root onlyRequired
         \<and> (\<forall>first rest.
               js_or (own_prop schema ''anyOf'') (own_prop schema ''oneOf'') = JArr (first # rest)
               \<longrightarrow> generateExample now n schema root onlyRequired
                     = generateExample now n first root onlyRequired)
         \<and> (js_or (own_prop schema ''anyOf'') (own_prop schema ''oneOf'') = JArr []
               \<longrightarrow> generateExample now n schema root onlyRequired = Ok JUndef)"
proof -
  have "is_object schema"
    using assms(3) truthy_keyword_object [of schema "''anyOf''"]
      truthy_keyword_object [of schema "''oneOf''"] by auto
  then have "truthy schema" by (cases schema) auto
  then have eq: "generateExample now n schema root onlyRequired
      = generateExample now n
          (own_prop (js_or (own_prop schema ''anyOf'') (own_prop schema ''oneOf'')) ''0'')
          root onlyRequired"
    using assms by (subst generateExample.simps) simp
  have undef: "generateExample now n JUndef root onlyRequired = Ok JUndef"
    by (simp add: generateExample.simps)
  show ?thesis
    using eq undef by simp
qed

theorem generateExample_anyOf_oneOf_first_witness:
  "generateExample ''now'' 0 (JObj [(''anyOf'', JArr [JObj [(''type'', JStr ''boolean'')],
         JObj [(''type'', JStr ''integer'')]])]) (JObj []) True
      = Ok (JBool True)
   \<and> generateExample ''now'' 0
         (JObj [(''oneOf'', JArr [JObj [(''type'', JStr ''integer'')],
                                  JObj [(''type'', JStr ''boolean'')]])]) (JObj []) False
      = generateExample ''now'' 0 (JObj [(''type'', JStr ''integer'')]) (JObj []) False"
proof -
  let ?any = "JObj [(''anyOf'', JArr [JObj [(''type'', JStr ''boolean'')],
         JObj [(''type'', JStr ''integer'')]])]"
  let ?one = "JObj [(''oneOf'', JArr [JObj [(''type'', JStr ''integer'')],
                                  JObj [(''type'', JStr ''boolean'')]])]"
  have child: "generateExample ''now'' 0 (JObj [(''type'', JStr ''boolean'')]) (JObj []) True
      = Ok (JBool True)"
    by (simp add: generateExample.simps)
  have "generateExample ''now'' 0 ?any (JObj []) True
      = generateExample ''now'' 0 (JObj [(''type'', JStr ''boolean'')]) (JObj []) True"
    using generateExample_anyOf_oneOf_first [of ?any "''now''" 0 "JObj []" True]
    by (simp add: js_or_def)
  moreover have "generateExample ''now'' 0 ?one (JObj []) False
      = generateExample ''now'' 0 (JObj [(''type'', JStr ''integer'')]) (JObj []) False"
    using generateExample_anyOf_oneOf_first [of ?one "''now''" 0 "JObj []" False]
    by (simp add: js_or_def)
  ultimately show ?thesis using child by simp
qed

theorem empty_anyOf_counterexample:
  "\<not> truthy (own_prop empty_anyOf ''$ref'') \<and> \<not> truthy (own_prop empty_anyOf ''allOf'')
   \<and> own_prop empty_anyOf ''oneOf'' = JArr [JObj [(''type'', JStr ''string'')]]
   \<and> generateExample ''now'' 0 (JObj [(''type'', JStr ''string'')]) (JObj []) False
       = Ok (JStr ''string'')
   \<and> generateExample ''now'' 0 empty_anyOf (JObj []) False = Ok JUndef"
proof -
  have alternative: "generateExample ''now'' 0 (JObj [(''type'', JStr ''string'')]) (JObj []) False
      = Ok (JStr ''string'')"
    by (simp add: generateExample.simps)
  have node: "generateExample ''now'' 0 empty_anyOf (JObj []) False = Ok JUndef"
    by (subst generateExample.simps)
       (simp add: empty_anyOf_def js_or_def generateExample.simps [of _ _ JUndef])
  show ?thesis
    using alternative node by (simp add: empty_anyOf_def)
qed

lemma generateExample_truthy_keyword:
  assumes "truthy (own_prop schema k)" and "keyword k"
  shows "truthy schema"
  using truthy_keyword_object [OF assms] by (cases schema) auto

text \<open>The branch of \<^verbatim>\<open>allOf\<close>, for a list of children.\<close>

definition merge_step :: "(string \<times> jv) list \<Rightarrow> jv \<Rightarrow> (string \<times> jv) list" where
  "merge_step merged ex = (if is_object ex then spread merged ex else merged)"

lemma generateExample_allOf:
  assumes "\<not> truthy (own_prop schema ''$ref'')" and "own_prop schema ''allOf'' = JArr subs"
  shows "generateExample now n schema root onlyRequired
       = bindR (forEachR (\<lambda>sub merged.
                  bindR (generateExample now n sub root onlyRequired) (\<lambda>ex.
                    Ok (merge_step merged ex))) subs [])
           (\<lambda>merged. Ok (JObj merged))"
proof -
  have "truthy (own_prop schema ''allOf'')" using assms(2) by simp
  then have "truthy schema" by (rule generateExample_truthy_keyword) simp
  then show ?thesis
    using assms by (subst generateExample.simps) (simp add: merge_step_def)
qed

lemma forEachR_children:
  assumes "map gen subs = map Ok exs"
  shows "forEachR (\<lambda>sub merged. bindR (gen sub) (\<lambda>ex. Ok (merge_step merged ex))) subs acc
       = Ok (foldl merge_step acc exs)"
  using assms
proof (induction subs arbitrary: exs acc)
  case Nil
  then show ?case by simp
next
  case (Cons sub subs)
  then obtain ex exs' where exs: "exs = ex # exs'" "gen sub = Ok ex" "map gen subs = map Ok exs'"
    by (cases exs) auto
  then show ?case using Cons.IH [of exs'] by simp
qed

lemma children_results:
  assumes "\<forall>sub\<in>set subs. \<exists>ex. gen sub = Ok ex"
  shows "\<exists>exs. map gen subs = map Ok exs"
  using assms
proof (induction subs)
  case Nil
  then show ?case by simp
next
  case (Cons sub subs)
  then obtain ex exs where "gen sub = Ok ex" "map gen subs = map Ok exs" by auto
  then have "map gen (sub # subs) = map Ok (ex # exs)" by simp
  then show ?case by blast
qed

lemma map_of_updates:
  assumes "distinct (map fst es)"
  shows "map_of (foldl (\<lambda>acc kv. AList.update (fst kv) (snd kv) acc) acc es) k
       = (case map_of es k of Some v \<Rightarrow> Some v | None \<Rightarrow> map_of acc k)"
  using assms
proof (induction es arbitrary: acc)
  case Nil
  then show ?case by simp
next
  case (Cons e es)
  have "k = fst e \<Longrightarrow> map_of es k = None"
    using Cons.prems by (auto simp: map_of_eq_None_iff)
  then show ?case
    using Cons by (cases e) (auto simp: update_conv' split: option.splits)
qed

text \<open>
  The value the merge has for a key, in the words of the specification: the value of
  the last child that has the key, where only a child of type \<^verbatim>\<open>object\<close> (an object
  or an array) has keys at all.
\<close>

fun later_wins :: "jv list \<Rightarrow> string \<Rightarrow> jv option" where
  "later_wins [] key = None"
| "later_wins (ex # exs) key =
     (case later_wins exs key of
        Some v \<Rightarrow> Some v
      | None \<Rightarrow> if is_object ex then map_of (own_entries ex) key else None)"

lemma map_of_merge:
  assumes "\<forall>ex\<in>set exs. distinct (map fst (own_entries ex))"
  shows "map_of (foldl merge_step acc exs) key
       = (case later_wins exs key of Some v \<Rightarrow> Some v | None \<Rightarrow> map_of acc key)"
  using assms
proof (induction exs arbitrary: acc)
  case Nil
  then show ?case by simp
next
  case (Cons ex exs)
  have "map_of (merge_step acc ex) key
      = (if is_object ex
         then (case map_of (own_entries ex) key of Some v \<Rightarrow> Some v | None \<Rightarrow> map_of acc key)
         else map_of acc key)"
    using Cons.prems by (simp add: merge_step_def spread_def map_of_updates)
  then show ?case
    using Cons by (simp split: option.splits)
qed

text \<open>
  C4, as the code has it. A schema with a list \<^verbatim>\<open>allOf\<close> and no \<^verbatim>\<open>$ref\<close>, every
  child of which synthesizes to a value: the example is one object, and for every key its
  value is the value of the last child example that has the key. The code takes a child
  into the merge when \<^verbatim>\<open>typeof ex === 'object' && ex !== null\<close>: that is an object
  or an array, and an array brings its elements under the keys \<^verbatim>\<open>0\<close>, \<^verbatim>\<open>1\<close>, ...;
  undefined, null, strings, numbers and booleans bring nothing. The child examples are
  values of the runtime: the keys of each are pairwise distinct.
\<close>

theorem generateExample_allOf_merge:
  assumes "\<not> truthy (own_prop schema ''$ref'')"
    and "own_prop schema ''allOf'' = JArr subs"
    and "map (\<lambda>sub. generateExample now n sub root onlyRequired) subs = map Ok exs"
    and "\<forall>ex\<in>set exs. distinct (map fst (own_entries ex))"
  shows "\<exists>merged. generateExample now n schema root onlyRequired = Ok (JObj merged)
           \<and> (\<forall>key. map_of merged key = later_wins exs key)"
proof -
  have "generateExample now n schema root onlyRequired = Ok (JObj (foldl merge_step [] exs))"
    using assms(1,2) forEachR_children [OF assms(3), of "[]"]
    by (simp add: generateExample_allOf)
  moreover have "map_of (foldl merge_step [] exs) key = later_wins exs key" for key
    using map_of_merge [OF assms(4), of "[]" key] by (simp split: option.splits)
  ultimately show ?thesis by blast
qed

text \<open>
  C10, as the code has it. A schema whose \<^verbatim>\<open>allOf\<close> is a list and that has no
  \<^verbatim>\<open>$ref\<close>: when every child's synthesis returns, whatever the values, the example
  is a plain object, for either flag.
\<close>

theorem generateExample_allOf_object:
  assumes "\<not> truthy (own_prop schema ''$ref'')"
    and "own_prop schema ''allOf'' = JArr subs"
    and "\<forall>sub\<in>set subs. \<exists>ex. generateExample now n sub root onlyRequired = Ok ex"
  shows "\<exists>merged. generateExample now n schema root onlyRequired = Ok (JObj merged)"
proof -
  obtain exs where "map (\<lambda>sub. generateExample now n sub root onlyRequired) subs = map Ok exs"
    using children_results [OF assms(3)] by blast
  then show ?thesis
    using assms(1,2) forEachR_children [of "\<lambda>sub. generateExample now n sub root onlyRequired" subs exs "[]"]
    by (simp add: generateExample_allOf)
qed

lemma show_nat_0 [simp]: "show_nat 0 = ''0''"
  by (simp add: show_nat.simps [of 0] digit_char_def)

abbreviation string_schema :: jv where
  "string_schema \<equiv> JObj [(''type'', JStr ''string'')]"

abbreviation integer_schema :: jv where
  "integer_schema \<equiv> JObj [(''type'', JStr ''integer'')]"

abbreviation boolean_schema :: jv where
  "boolean_schema \<equiv> JObj [(''type'', JStr ''boolean'')]"

lemma generateExample_primitives [simp]:
  "generateExample now n string_schema root onlyRequired = Ok (JStr ''string'')"
  "generateExample now n integer_schema root onlyRequired = Ok (JNum 0)"
  "generateExample now n boolean_schema root onlyRequired = Ok (JBool True)"
  by (simp_all add: generateExample.simps)

definition array_of_strings :: jv where
  "array_of_strings = JObj [(''type'', JStr ''array''), (''items'', string_schema)]"

lemma generateExample_array_of_strings:
  "generateExample now n array_of_strings root onlyRequired = Ok (JArr [JStr ''string''])"
  by (simp add: array_of_strings_def generateExample.simps [of _ _ "JObj (x # xs)" for x xs])

theorem allOf_array_child_counterexample:
  "generateExample ''now'' 0 array_of_strings (JObj []) False = Ok (JArr [JStr ''string''])
   \<and> generateExample ''now'' 0 (JObj [(''allOf'', JArr [array_of_strings])]) (JObj []) False
       = Ok (JObj [(''0'', JStr ''string'')])"
  by (simp add: generateExample_array_of_strings generateExample_allOf merge_step_def spread_def)

definition ab_schema :: jv where
  "ab_schema = JObj [(''properties'', JObj [(''a'', string_schema), (''b'', integer_schema)])]"

definition b_schema :: jv where
  "b_schema = JObj [(''properties'', JObj [(''b'', boolean_schema)])]"

lemma generateExample_ab_schema:
  "generateExample now n ab_schema root False = Ok (JObj [(''a'', JStr ''string''), (''b'', JNum 0)])"
  by (simp add: ab_schema_def generateExample.simps [of _ _ "JObj [(''properties'', x)]" for x]
      js_or_def obj_set_def)

lemma generateExample_b_schema:
  "generateExample now n b_schema root False = Ok (JObj [(''b'', JBool True)])"
  by (simp add: b_schema_def generateExample.simps [of _ _ "JObj [(''properties'', x)]" for x]
      js_or_def obj_set_def)

theorem generateExample_allOf_merge_witness:
  "(\<exists>merged. generateExample ''now'' 0
        (JObj [(''allOf'', JArr [ab_schema, b_schema, integer_schema])]) (JObj []) False
          = Ok (JObj merged)
      \<and> (\<forall>key. map_of merged key
            = later_wins [JObj [(''a'', JStr ''string''), (''b'', JNum 0)],
                          JObj [(''b'', JBool True)], JNum 0] key))
   \<and> later_wins [JObj [(''a'', JStr ''string''), (''b'', JNum 0)],
                  JObj [(''b'', JBool True)], JNum 0] ''b'' = Some (JBool True)"
  using generateExample_allOf_merge
    [of "JObj [(''allOf'', JArr [ab_schema, b_schema, integer_schema])]"
        "[ab_schema, b_schema, integer_schema]" "''now''" 0 "JObj []" False
        "[JObj [(''a'', JStr ''string''), (''b'', JNum 0)], JObj [(''b'', JBool True)], JNum 0]"]
  by (simp add: generateExample_ab_schema generateExample_b_schema)

definition required_true_schema :: jv where
  "required_true_schema =
     JObj [(''type'', JStr ''object''), (''required'', JBool True),
           (''properties'', JObj [(''id'', integer_schema)])]"

theorem allOf_child_throws_counterexample:
  "generateExample ''now'' 0 (JObj [(''allOf'', JArr [required_true_schema])]) (JObj []) True
     = Throw TypeError"
  by (simp add: generateExample_allOf required_true_schema_def js_or_def
      generateExample.simps [of _ _ "JObj [(''type'', x), y, z]" for x y z])

theorem generateExample_allOf_object_witness:
  "\<exists>merged. generateExample ''now'' 0
      (JObj [(''allOf'', JArr [string_schema, JObj [(''$ref'', JStr ''#/missing'')], JObj []])])
      (JObj []) True = Ok (JObj merged)"
  using generateExample_allOf_object
    [of "JObj [(''allOf'', JArr [string_schema, JObj [(''$ref'', JStr ''#/missing'')], JObj []])]"
        "[string_schema, JObj [(''$ref'', JStr ''#/missing'')], JObj []]" "''now''" 0 "JObj []" True]
  by (simp add: generateExample.simps [of _ _ "JObj [(''$ref'', x)]" for x]
      generateExample.simps [of _ _ "JObj []"] resolve_def refPath_def walk_def)

lemma forEachR_append:
  "forEachR f (xs @ ys) s = bindR (forEachR f xs s) (forEachR f ys)"
proof (induction xs arbitrary: s)
  case Nil
  then show ?case by simp
next
  case (Cons x xs)
  then show ?case by (cases "f x s") simp_all
qed

text \<open>
  A child of \<^verbatim>\<open>allOf\<close> that fails: the children before it have returned, the call
  on it throws or does not return, and the call on the schema does the same. There is no
  \<^verbatim>\<open>try\<close> around the loop.
\<close>

lemma generateExample_allOf_failure:
  assumes "\<not> truthy (own_prop schema ''$ref'')"
    and "own_prop schema ''allOf'' = JArr (before @ sub # rest)"
    and "\<forall>d\<in>set before. \<exists>ex. generateExample now n d root onlyRequired = Ok ex"
  shows "(generateExample now n sub root onlyRequired = Throw e
            \<longrightarrow> generateExample now n schema root onlyRequired = Throw e)
       \<and> (generateExample now n sub root onlyRequired = Diverge
            \<longrightarrow> generateExample now n schema root onlyRequired = Diverge)"
proof -
  let ?step = "\<lambda>sub merged. bindR (generateExample now n sub root onlyRequired)
                 (\<lambda>ex. Ok (merge_step merged ex))"
  obtain exs where "map (\<lambda>d. generateExample now n d root onlyRequired) before = map Ok exs"
    using children_results [OF assms(3)] by blast
  then have "forEachR ?step before [] = Ok (foldl merge_step [] exs)"
    by (rule forEachR_children)
  then have "forEachR ?step (before @ sub # rest) []
      = bindR (?step sub (foldl merge_step [] exs)) (forEachR ?step rest)"
    by (simp add: forEachR_append)
  then show ?thesis
    by (auto simp: generateExample_allOf [OF assms(1,2)])
qed

text \<open>The branch of an object schema.\<close>

lemma update_fresh: "k \<notin> fst ` set al \<Longrightarrow> AList.update k v al = al @ [(k, v)]"
  by (induction al) auto

lemma generateExample_object:
  assumes "\<not> truthy (own_prop schema ''$ref'')" and "\<not> truthy (own_prop schema ''allOf'')"
    and "\<not> truthy (own_prop schema ''anyOf'')" and "\<not> truthy (own_prop schema ''oneOf'')"
    and "own_prop schema ''example'' = JUndef" and "own_prop schema ''default'' = JUndef"
    and "own_prop schema ''type'' = JStr ''object'' \<or> truthy (own_prop schema ''properties'')"
  shows "generateExample now n schema root onlyRequired
       = bindR (forEachR (\<lambda>kv obj.
                  bindR (if onlyRequired
                         then js_includes (js_or (own_prop schema ''required'') (JArr [])) (fst kv)
                         else Ok True) (\<lambda>inc.
                    if \<not> inc then Ok obj
                    else bindR (generateExample now n (snd kv) root onlyRequired) (\<lambda>v.
                           Ok (obj_set obj (fst kv) v))))
                (own_entries (js_or (own_prop schema ''properties'') (JObj []))) [])
           (\<lambda>obj. Ok (JObj obj))"
proof -
  have "truthy (own_prop schema ''type'') \<or> truthy (own_prop schema ''properties'')"
    using assms(7) by auto
  then have "truthy schema"
    using generateExample_truthy_keyword [of schema "''type''"]
      generateExample_truthy_keyword [of schema "''properties''"] by auto
  then show ?thesis
    using assms by (subst generateExample.simps) (simp add: Let_def)
qed

lemma forEachR_properties:
  assumes "distinct (map fst props)" and "''__proto__'' \<notin> set (map fst props)"
    and "set (map fst props) \<inter> set (map fst acc) = {}"
    and "\<forall>kv\<in>set props. inc kv = Ok (keep (fst kv))"
    and "\<forall>kv\<in>set props. keep (fst kv) \<longrightarrow> (\<exists>v. gen (snd kv) = Ok v)"
  shows "\<exists>obj. forEachR (\<lambda>kv obj.
                   bindR (inc kv) (\<lambda>i.
                     if \<not> i then Ok obj
                     else bindR (gen (snd kv)) (\<lambda>v. Ok (obj_set obj (fst kv) v))))
                 props acc = Ok obj
             \<and> map fst obj = map fst acc @ filter keep (map fst props)"
  using assms
proof (induction props arbitrary: acc)
  case Nil
  then show ?case by simp
next
  case (Cons kv props)
  let ?step = "\<lambda>kv obj. bindR (inc kv) (\<lambda>i.
                     if \<not> i then Ok obj
                     else bindR (gen (snd kv)) (\<lambda>v. Ok (obj_set obj (fst kv) v)))"
  have inc: "inc kv = Ok (keep (fst kv))" using Cons.prems(4) by simp
  show ?case
  proof (cases "keep (fst kv)")
    case False
    then have "?step kv acc = Ok acc" using inc by simp
    moreover have "\<exists>obj. forEachR ?step props acc = Ok obj
        \<and> map fst obj = map fst acc @ filter keep (map fst props)"
      using Cons.prems by (intro Cons.IH) auto
    ultimately show ?thesis using False by simp
  next
    case True
    then obtain v where v: "gen (snd kv) = Ok v" using Cons.prems(5) by auto
    have fresh: "fst kv \<notin> fst ` set acc" and proto: "fst kv \<noteq> ''__proto__''"
      using Cons.prems(2,3) by auto
    let ?acc = "acc @ [(fst kv, v)]"
    have "?step kv acc = Ok ?acc"
      using inc True v fresh proto by (simp add: obj_set_def update_fresh)
    moreover have "\<exists>obj. forEachR ?step props ?acc = Ok obj
        \<and> map fst obj = map fst ?acc @ filter keep (map fst props)"
      using Cons.prems by (intro Cons.IH) auto
    ultimately show ?thesis using True by simp
  qed
qed

text \<open>
  C6, as the code has it. An object schema without \<^verbatim>\<open>$ref\<close>, composition keyword,
  \<^verbatim>\<open>example\<close> and \<^verbatim>\<open>default\<close>, whose declared properties (none of them named
  \<^verbatim>\<open>__proto__\<close>) each synthesize to a value: the full example is an object whose keys
  are the declared property names, in their order. With an \<^verbatim>\<open>example\<close> or a
  \<^verbatim>\<open>default\<close> the code returns that value instead. The schema is a parsed
  object: the names of its properties are pairwise distinct.
\<close>

theorem generateExample_full_object_keys:
  assumes "\<not> truthy (own_prop schema ''$ref'')" and "\<not> truthy (own_prop schema ''allOf'')"
    and "\<not> truthy (own_prop schema ''anyOf'')" and "\<not> truthy (own_prop schema ''oneOf'')"
    and "own_prop schema ''example'' = JUndef" and "own_prop schema ''default'' = JUndef"
    and "own_prop schema ''type'' = JStr ''object'' \<or> truthy (own_prop schema ''properties'')"
    and "props = own_entries (js_or (own_prop schema ''properties'') (JObj []))"
    and "distinct (map fst props)" and "''__proto__'' \<notin> set (map fst props)"
    and "\<forall>kv\<in>set props. \<exists>v. generateExample now n (snd kv) root False = Ok v"
  shows "\<exists>obj. generateExample now n schema root False = Ok (JObj obj)
           \<and> map fst obj = map fst props"
proof -
  obtain obj where
    "forEachR (\<lambda>kv obj.
        bindR (Ok True) (\<lambda>i.
          if \<not> i then Ok obj
          else bindR (generateExample now n (snd kv) root False) (\<lambda>v.
                 Ok (obj_set obj (fst kv) v))))
      props [] = Ok obj"
    and "map fst obj = map fst [] @ filter (\<lambda>k. True) (map fst props)"
    using forEachR_properties [of props "[]" "\<lambda>kv. Ok True" "\<lambda>k. True"
        "\<lambda>s. generateExample now n s root False"] assms(9,10,11)
    by auto
  then show ?thesis
    using assms(8) by (simp add: generateExample_object [OF assms(1-7)])
qed

text \<open>
  C7, as the code has it. An object schema without \<^verbatim>\<open>$ref\<close>, composition keyword,
  \<^verbatim>\<open>example\<close> and \<^verbatim>\<open>default\<close>, whose \<^verbatim>\<open>required\<close> is a list (or absent): the
  required-only example is an object whose keys are the declared properties that the list
  names, in declaration order. They are a subset of the list, and the whole list exactly
  when every name in it is a declared property; a required name that is not declared
  gives no key.
\<close>

theorem generateExample_required_object_keys:
  assumes "\<not> truthy (own_prop schema ''$ref'')" and "\<not> truthy (own_prop schema ''allOf'')"
    and "\<not> truthy (own_prop schema ''anyOf'')" and "\<not> truthy (own_prop schema ''oneOf'')"
    and "own_prop schema ''example'' = JUndef" and "own_prop schema ''default'' = JUndef"
    and "own_prop schema ''type'' = JStr ''object'' \<or> truthy (own_prop schema ''properties'')"
    and "props = own_entries (js_or (own_prop schema ''properties'') (JObj []))"
    and "distinct (map fst props)" and "''__proto__'' \<notin> set (map fst props)"
    and "js_or (own_prop schema ''required'') (JArr []) = JArr req"
    and "\<forall>kv\<in>set props. JStr (fst kv) \<in> set req
           \<longrightarrow> (\<exists>v. generateExample now n (snd kv) root True = Ok v)"
  shows "\<exists>obj. generateExample now n schema root True = Ok (JObj obj)
           \<and> map fst obj = filter (\<lambda>k. JStr k \<in> set req) (map fst props)
           \<and> JStr ` set (map fst obj) \<subseteq> set req
           \<and> (set req \<subseteq> JStr ` set (map fst props) \<longrightarrow> JStr ` set (map fst obj) = set req)"
proof -
  obtain obj where run:
    "forEachR (\<lambda>kv obj.
        bindR (js_includes (JArr req) (fst kv)) (\<lambda>i.
          if \<not> i then Ok obj
          else bindR (generateExample now n (snd kv) root True) (\<lambda>v.
                 Ok (obj_set obj (fst kv) v))))
      props [] = Ok obj"
    and keys: "map fst obj = map fst [] @ filter (\<lambda>k. JStr k \<in> set req) (map fst props)"
    using forEachR_properties [of props "[]" "\<lambda>kv. js_includes (JArr req) (fst kv)"
        "\<lambda>k. JStr k \<in> set req" "\<lambda>s. generateExample now n s root True"] assms(9,10,12)
    by auto
  have keys': "map fst obj = filter (\<lambda>k. JStr k \<in> set req) (map fst props)"
    using keys by simp
  have res: "generateExample now n schema root True = Ok (JObj obj)"
    using run assms(8,11) by (simp add: generateExample_object [OF assms(1-7)])
  have sub: "JStr ` set (map fst obj) \<subseteq> set req"
    unfolding keys' by auto
  have eq: "JStr ` set (map fst obj) = set req" if all: "set req \<subseteq> JStr ` set (map fst props)"
  proof
    show "JStr ` set (map fst obj) \<subseteq> set req" by (rule sub)
    show "set req \<subseteq> JStr ` set (map fst obj)"
    proof
      fix r assume r: "r \<in> set req"
      then have "r \<in> JStr ` set (map fst props)" using all by blast
      then obtain k where "r = JStr k" "k \<in> set (map fst props)" by (rule imageE)
      then show "r \<in> JStr ` set (map fst obj)" using r unfolding keys' by simp
    qed
  qed
  show ?thesis
    by (rule exI [of _ obj]) (use res keys' sub eq in blast)
qed

definition object_with_example :: jv where
  "object_with_example =
     JObj [(''type'', JStr ''object''), (''properties'', JObj [(''a'', string_schema)]),
           (''example'', JObj [(''b'', JNum 1)])]"

theorem full_object_example_counterexample:
  "map fst (own_entries (own_prop object_with_example ''properties'')) = [''a'']
   \<and> generateExample ''now'' 0 object_with_example (JObj []) False = Ok (JObj [(''b'', JNum 1)])"
  by (simp add: object_with_example_def
      generateExample.simps [of _ _ "JObj [(''type'', x), y, z]" for x y z])

theorem generateExample_full_object_keys_witness:
  "\<exists>obj. generateExample ''now'' 0 ab_schema (JObj []) False = Ok (JObj obj)
         \<and> map fst obj = [''a'', ''b'']"
proof -
  let ?props = "[(''a'', string_schema), (''b'', integer_schema)]"
  have props: "?props = own_entries (js_or (own_prop ab_schema ''properties'') (JObj []))"
    by (simp add: ab_schema_def js_or_def)
  have children: "\<forall>kv\<in>set ?props. \<exists>v. generateExample ''now'' 0 (snd kv) (JObj []) False = Ok v"
    by simp
  have "\<exists>obj. generateExample ''now'' 0 ab_schema (JObj []) False = Ok (JObj obj)
          \<and> map fst obj = map fst ?props"
    by (rule generateExample_full_object_keys [OF _ _ _ _ _ _ _ props _ _ children])
       (simp_all add: ab_schema_def)
  then show ?thesis by simp
qed

definition required_undeclared :: jv where
  "required_undeclared =
     JObj [(''type'', JStr ''object''), (''properties'', JObj [(''a'', string_schema)]),
           (''required'', JArr [JStr ''a'', JStr ''b''])]"

theorem required_undeclared_counterexample:
  "own_prop required_undeclared ''required'' = JArr [JStr ''a'', JStr ''b'']
   \<and> generateExample ''now'' 0 required_undeclared (JObj []) True
       = Ok (JObj [(''a'', JStr ''string'')])"
  by (simp add: required_undeclared_def js_or_def obj_set_def
      generateExample.simps [of _ _ "JObj [(''type'', x), y, z]" for x y z])

definition required_a_schema :: jv where
  "required_a_schema =
     JObj [(''type'', JStr ''object''),
           (''properties'', JObj [(''a'', string_schema), (''b'', integer_schema)]),
           (''required'', JArr [JStr ''a''])]"

theorem generateExample_required_object_keys_witness:
  "\<exists>obj. generateExample ''now'' 0 required_a_schema (JObj []) True = Ok (JObj obj)
         \<and> map fst obj = [''a''] \<and> JStr ` set (map fst obj) = {JStr ''a''}"
proof -
  let ?props = "[(''a'', string_schema), (''b'', integer_schema)]"
  have props: "?props = own_entries (js_or (own_prop required_a_schema ''properties'') (JObj []))"
    by (simp add: required_a_schema_def js_or_def)
  have req: "js_or (own_prop required_a_schema ''required'') (JArr []) = JArr [JStr ''a'']"
    by (simp add: required_a_schema_def js_or_def)
  have children: "\<forall>kv\<in>set ?props. JStr (fst kv) \<in> set [JStr ''a'']
      \<longrightarrow> (\<exists>v. generateExample ''now'' 0 (snd kv) (JObj []) True = Ok v)"
    by simp
  have "\<exists>obj. generateExample ''now'' 0 required_a_schema (JObj []) True = Ok (JObj obj)
          \<and> map fst obj = filter (\<lambda>k. JStr k \<in> set [JStr ''a'']) (map fst ?props)
          \<and> JStr ` set (map fst obj) \<subseteq> set [JStr ''a'']
          \<and> (set [JStr ''a''] \<subseteq> JStr ` set (map fst ?props)
               \<longrightarrow> JStr ` set (map fst obj) = set [JStr ''a''])"
    by (rule generateExample_required_object_keys [OF _ _ _ _ _ _ _ props _ _ req children])
       (simp_all add: required_a_schema_def)
  then obtain obj where
    "generateExample ''now'' 0 required_a_schema (JObj []) True = Ok (JObj obj)"
    "map fst obj = filter (\<lambda>k. JStr k \<in> set [JStr ''a'']) (map fst ?props)"
    "set [JStr ''a''] \<subseteq> JStr ` set (map fst ?props)
       \<longrightarrow> JStr ` set (map fst obj) = set [JStr ''a'']"
    by blast
  then show ?thesis by (intro exI [of _ obj]) simp
qed

section \<open>Properties of the Document Assembler\<close>

lemma toLowerCase_post: "toLowerCase ''post'' = ''post''"
  by (simp add: toLowerCase_def to_lower_def)

text \<open>A document with one operation, \<^verbatim>\<open>POST /x\<close>, whose JSON request body has the given schema.\<close>

definition request_body_op :: "jv \<Rightarrow> jv" where
  "request_body_op schema =
     JObj [(''requestBody'',
              JObj [(''content'', JObj [(''application/json'',
                JObj [(''schema'', schema)])])])]"

definition request_body_doc :: "jv \<Rightarrow> jv" where
  "request_body_doc schema =
     JObj [(''info'', JObj [(''title'', JStr ''T'')]),
           (''paths'', JObj [(''/x'', JObj [(''post'', request_body_op schema)])])]"

lemma input_section_request_body:
  assumes "truthy schema"
  shows "input_section n spec (request_body_op schema) ls
     = bindR (parseSchema n schema spec (ls @ [''#### Input'', ''**Request Body:**'']) 0)
         (\<lambda>lines4. Ok (lines4 @ [[]], schema))"
  using assms
  by (simp add: input_section_def request_body_op_def js_or_def content_schema_def Let_def
      bindR_assoc)

lemma input_examples_nullish:
  assumes "generateExample now n schema spec True = Ok ex" and "nullish ex"
    and "generateExample now n schema spec False = Ok ex'"
  shows "input_examples now n spec schema ls = Throw TypeError"
  using assms by (simp add: input_examples_def Object_keys_def)

lemma operation_block_request_body:
  assumes "truthy schema"
    and "parseSchema n schema spec
           (ls @ [''### POST /x - No summary'', [], ''#### Input'', ''**Request Body:**'']) 0 = Ok ls'"
    and "input_examples now n spec schema (ls' @ [[]]) = Throw TypeError"
  shows "operation_block now n spec baseUrl ''/x'' (''post'', request_body_op schema) ls = Throw TypeError"
proof -
  have up: "toUpperCase ''post'' = ''POST''"
    by (simp add: toUpperCase_def to_upper_def)
  have op: "\<not> nullish (request_body_op schema)"
    "own_prop (request_body_op schema) ''summary'' = JUndef"
    "own_prop (request_body_op schema) ''operationId'' = JUndef"
    "own_prop (request_body_op schema) ''description'' = JUndef"
    by (simp_all add: request_body_op_def)
  show ?thesis
    using assms
    by (simp add: operation_block_def toLowerCase_post up op js_or_def Let_def
        input_section_request_body)
qed

lemma convert_request_body:
  assumes "\<And>baseUrl ls. operation_block now n (request_body_doc schema) baseUrl ''/x''
             (''post'', request_body_op schema) ls = Throw TypeError"
  shows "localConvertToLlmTxt now n (Some (request_body_doc schema)) = Throw TypeError"
proof -
  have "localConvertToLlmTxt now n (Some (request_body_doc schema))
      = bindR (forEachR (\<lambda>pm ls.
                        bindR (Object_entries (snd pm)) (\<lambda>methods.
                          forEachR (operation_block now n (request_body_doc schema) ''https://api.example.com'' (fst pm)) methods ls))
                      [(''/x'', JObj [(''post'', request_body_op schema)])]
                  [''# T'', ''No description provided.'', [], ''## Endpoints'', []])
                 (\<lambda>lines. Ok (join [newline] lines))"
    by (simp add: localConvertToLlmTxt_def request_body_doc_def member_def js_or_def Let_def)
  then show ?thesis
    by (simp add: Object_entries_def assms)
qed

abbreviation unknown_type_schema :: jv where
  "unknown_type_schema \<equiv> JObj [(''type'', JStr ''file'')]"

lemma generateExample_unknown_type:
  "generateExample now n unknown_type_schema root onlyRequired = Ok JNull"
  by (simp add: generateExample.simps)

lemma parseSchema_unknown_type:
  "parseSchema n unknown_type_schema root ls d = Ok (ls @ [primitive_line d unknown_type_schema])"
  by (simp add: parseSchema.simps)

text \<open>
  C1. The claim: a schema anomaly inside a request body is recovered locally and the
  conversion still returns its Markdown. At the request body schema
  \<^verbatim>\<open>{"type": "file"}\<close> the Describer and the Synthesizer do recover: one line is
  described and the example is \<^verbatim>\<open>null\<close>. The Assembler then evaluates
  \<^verbatim>\<open>Object.keys(requiredEx).length\<close> on that \<^verbatim>\<open>null\<close>, unguarded (the response
  path guards the same call with \<^verbatim>\<open>respEx &&\<close>), and the conversion ends in a
  TypeError instead of a document.
\<close>

theorem request_body_unknown_type_throws:
  "generateExample now n unknown_type_schema (request_body_doc unknown_type_schema) True
     = Ok JNull
   \<and> localConvertToLlmTxt now n (Some (request_body_doc unknown_type_schema))
     = Throw TypeError"
proof -
  have "input_examples now n (request_body_doc unknown_type_schema) unknown_type_schema ls
      = Throw TypeError" for ls
    by (rule input_examples_nullish [where ex = JNull])
       (simp_all add: generateExample_unknown_type)
  then have "operation_block now n (request_body_doc unknown_type_schema) baseUrl ''/x''
      (''post'', request_body_op unknown_type_schema) ls = Throw TypeError" for baseUrl ls
    by (intro operation_block_request_body) (simp_all add: parseSchema_unknown_type)
  then show ?thesis
    by (simp add: convert_request_body generateExample_unknown_type)
qed

abbreviation missing_ref_schema :: jv where
  "missing_ref_schema \<equiv> JObj [(''$ref'', JStr ''#/components/schemas/Foo'')]"

lemma resolve_missing_ref:
  "resolve (request_body_doc schema) ''#/components/schemas/Foo'' = JUndef"
  by (simp add: resolve_def refPath_def walk_def request_body_doc_def)

lemma generateExample_missing_ref:
  "generateExample now n missing_ref_schema (request_body_doc schema) onlyRequired = Ok JUndef"
  by (simp add: generateExample.simps resolve_missing_ref)

lemma parseSchema_missing_ref:
  "parseSchema n missing_ref_schema (request_body_doc schema) ls d
     = Ok (ls @ [indent d @ ''- `Ref: #/components/schemas/Foo`''])"
  by (simp add: parseSchema.simps resolve_missing_ref)

text \<open>
  C3. The claim: a \<^verbatim>\<open>$ref\<close> that does not resolve gives one placeholder line and the
  surrounding conversion goes on to its complete output. For the request body schema
  \<^verbatim>\<open>{"$ref": "#/components/schemas/Foo"}\<close> of a document without \<^verbatim>\<open>components\<close>
  the Describer does push the one placeholder line; the Synthesizer returns
  \<^verbatim>\<open>undefined\<close> for the same reference, and the conversion ends in the TypeError of
  \<^verbatim>\<open>Object.keys(undefined)\<close>.
\<close>

theorem request_body_missing_ref_throws:
  "parseSchema n missing_ref_schema (request_body_doc missing_ref_schema) [] 0
     = Ok [''- `Ref: #/components/schemas/Foo`'']
   \<and> generateExample now n missing_ref_schema (request_body_doc missing_ref_schema) True
     = Ok JUndef
   \<and> localConvertToLlmTxt now n (Some (request_body_doc missing_ref_schema)) = Throw TypeError"
proof -
  have "input_examples now n (request_body_doc missing_ref_schema) missing_ref_schema ls
      = Throw TypeError" for ls
    by (rule input_examples_nullish [where ex = JUndef])
       (simp_all add: generateExample_missing_ref)
  then have "operation_block now n (request_body_doc missing_ref_schema) baseUrl ''/x''
      (''post'', request_body_op missing_ref_schema) ls = Throw TypeError" for baseUrl ls
    by (intro operation_block_request_body) (simp_all add: parseSchema_missing_ref)
  then show ?thesis
    by (simp add: convert_request_body generateExample_missing_ref parseSchema_missing_ref
        indent_def)
qed

text \<open>A document without \<^verbatim>\<open>info\<close>: \<^verbatim>\<open>{"paths": {}}\<close>.\<close>

definition doc_without_info :: jv where
  "doc_without_info = JObj [(''paths'', JObj [])]"

text \<open>
  C8. The claim: a document with no \<^verbatim>\<open>info\<close> object still converts, with the title
  line \<^verbatim>\<open>API Documentation\<close>. The fallbacks of the code sit behind
  \<^verbatim>\<open>spec.info.title\<close> and \<^verbatim>\<open>spec.info.description\<close>: without \<^verbatim>\<open>info\<close> the
  read of \<^verbatim>\<open>title\<close> on \<^verbatim>\<open>undefined\<close> throws before any line is produced.
\<close>

theorem doc_without_info_throws:
  "localConvertToLlmTxt now n (Some doc_without_info) = Throw TypeError"
  by (simp add: localConvertToLlmTxt_def doc_without_info_def member_def)

text \<open>
  The content of a response with a schema and one named example,
  \<^verbatim>\<open>{"application/json": {"schema": {"type": "object", "properties": {"id": {"type":
  "integer"}}}, "examples": {"first": {"value": {"id": 7}}}}}\<close>.
\<close>

definition named_example_content :: jv where
  "named_example_content =
     JObj [(''application/json'',
       JObj [(''schema'', JObj [(''type'', JStr ''object''),
                (''properties'', JObj [(''id'', JObj [(''type'', JStr ''integer'')])])]),
             (''examples'', JObj [(''first'', JObj [(''value'', JObj [(''id'', JNum 7)])])])])]"

lemma generateExample_integer:
  "generateExample now n (JObj [(''type'', JStr ''integer'')]) root onlyRequired = Ok (JNum 0)"
  by (simp add: generateExample.simps)

text \<open>
  C9. The claim: without an explicit example the Example Response block shows the value
  of the first named entry of the \<^verbatim>\<open>examples\<close> map. The code reads
  \<^verbatim>\<open>examples?.[0]?.value\<close>, the entry under the key \<^verbatim>\<open>0\<close>, which a map of named
  examples does not have: the named example \<^verbatim>\<open>{"id": 7}\<close> is passed over and the block
  shows the synthesized \<^verbatim>\<open>{"id": 0}\<close>.
\<close>

theorem named_example_passed_over:
  "own_prop (first_value (own_prop (own_prop named_example_content ''application/json'')
      ''examples'')) ''value'' = JObj [(''id'', JNum 7)]
   \<and> respEx now n named_example_content (content_schema named_example_content) root
       = Ok (JObj [(''id'', JNum 0)])"
  by (simp add: named_example_content_def first_value_def respEx_def content_schema_def
      js_or_def generateExample_integer obj_set_def
      generateExample.simps [of _ _ "JObj [(''type'', JStr ''object''),
                (''properties'', JObj [(''id'', JObj [(''type'', JStr ''integer'')])])]"])

section \<open>Termination\<close>

text \<open>The values directly inside a value.\<close>

fun parts :: "jv \<Rightarrow> jv list" where
  "parts (JObj kvs) = map snd kvs"
| "parts (JArr xs) = xs"
| "parts v = []"

lemma msize_parts:
  assumes "p \<in> set (parts v)"
  shows "msize p < msize v"
proof (cases v)
  case (JArr xs)
  then show ?thesis
    using assms msize_elem [of p xs] by simp
next
  case (JObj kvs)
  then obtain kv where "kv \<in> set kvs" "p = snd kv"
    using assms by auto
  then show ?thesis
    using JObj msize_snd_elem [of kv kvs] by simp
qed (use assms in auto)

lemma own_prop_keyword_leaf: "keyword k \<Longrightarrow> \<not> is_object v \<Longrightarrow> own_prop v k = JUndef"
  by (cases v) (simp_all add: keyword_def)

text \<open>
  \<open>refs_nest_within n root v\<close>: starting anywhere inside \<open>v\<close>, a chain of \<^verbatim>\<open>$ref\<close>
  hops that resolve in \<open>root\<close> is at most \<open>n\<close> hops long. A schema graph without a cycle
  through \<^verbatim>\<open>$ref\<close> has such a bound.
\<close>

function refs_nest_within :: "nat \<Rightarrow> jv \<Rightarrow> jv \<Rightarrow> bool" where
  "refs_nest_within n root v =
     ((\<forall>p\<in>set (parts v). refs_nest_within n root p)
      \<and> (case own_prop v ''$ref'' of
           JStr r \<Rightarrow>
             (let target = resolve root r in
              if truthy target then
                (case n of
                   0 \<Rightarrow> False
                 | Suc m \<Rightarrow> refs_nest_within m root target)
              else True)
         | _ \<Rightarrow> True))"
  by pat_completeness auto

termination refs_nest_within
proof (relation "inv_image (less_than <*lex*> less_than) (\<lambda>(n, root, v). (n, msize v))",
    goal_cases)
  case 1
  then show ?case by (intro wf_inv_image wf_lex_prod wf_less_than)
next
  case (2 n root v p)
  then show ?case by (simp add: msize_parts)
next
  case (3 n root v r target m)
  then show ?case by simp
qed

declare refs_nest_within.simps [simp del]

lemma within_part: "refs_nest_within n root v \<Longrightarrow> p \<in> set (parts v) \<Longrightarrow> refs_nest_within n root p"
  by (subst (asm) refs_nest_within.simps) simp

lemma within_leaf:
  assumes "\<not> is_object v"
  shows "refs_nest_within n root v"
proof -
  have "parts v = []" using assms by (cases v) simp_all
  moreover have "own_prop v ''$ref'' = JUndef"
    using assms by (simp add: own_prop_keyword_leaf)
  ultimately show ?thesis by (subst refs_nest_within.simps) simp
qed

lemma within_empty [simp]: "refs_nest_within n root (JObj [])" "refs_nest_within n root (JArr [])"
  by (subst refs_nest_within.simps, simp add: parse_index_def is_digit_def)+

lemma own_prop_part: "is_object v \<Longrightarrow> is_object (own_prop v k) \<Longrightarrow> own_prop v k \<in> set (parts v)"
  by (cases v) (auto split: option.splits if_splits dest: map_of_SomeD intro: rev_image_eqI)

lemma within_own_prop: "refs_nest_within n root v \<Longrightarrow> refs_nest_within n root (own_prop v k)"
proof (cases "is_object v \<and> is_object (own_prop v k)")
  case True
  then show "refs_nest_within n root v \<Longrightarrow> ?thesis"
    using own_prop_part [of v k] within_part by blast
next
  case False
  then have "\<not> is_object (own_prop v k)" by (cases v) (auto split: option.splits)
  then show ?thesis by (rule within_leaf)
qed

lemma own_entries_part:
  "kv \<in> set (own_entries v) \<Longrightarrow> is_object (snd kv) \<Longrightarrow> snd kv \<in> set (parts v)"
proof (cases v)
  case (JArr xs)
  then show "kv \<in> set (own_entries v) \<Longrightarrow> ?thesis"
    using snd_indexed_from [of kv 0 xs] by simp
next
  case (JStr s)
  then show "kv \<in> set (own_entries v) \<Longrightarrow> is_object (snd kv) \<Longrightarrow> ?thesis"
    using snd_indexed_from [of kv 0 "map (\<lambda>c. JStr [c]) s"] by auto
qed auto

lemma within_own_entries:
  "refs_nest_within n root v \<Longrightarrow> kv \<in> set (own_entries v) \<Longrightarrow> refs_nest_within n root (snd kv)"
  using own_entries_part [of kv v] within_part [of n root v "snd kv"] within_leaf [of "snd kv" n root]
  by blast

lemma within_element:
  "refs_nest_within n root v \<Longrightarrow> own_prop v k = JArr xs \<Longrightarrow> x \<in> set xs
     \<Longrightarrow> refs_nest_within n root x"
  using within_own_prop [of n root v k] within_part [of n root "JArr xs" x] by simp

lemma within_ref:
  "refs_nest_within n root v \<Longrightarrow> own_prop v ''$ref'' = JStr r \<Longrightarrow> truthy (resolve root r)
     \<Longrightarrow> \<exists>m. n = Suc m \<and> refs_nest_within m root (resolve root r)"
  by (subst (asm) refs_nest_within.simps) (simp split: nat.splits)

text \<open>A call returns: it ends with a value or a thrown error.\<close>

definition returns :: "'a res \<Rightarrow> bool" where
  "returns r = (r \<noteq> Diverge)"

lemma returns_simps [simp]: "returns (Ok x)" "returns (Throw e)" "\<not> returns Diverge"
  by (simp_all add: returns_def)

lemma bindR_returns:
  "returns m \<Longrightarrow> (\<And>x. m = Ok x \<Longrightarrow> returns (f x)) \<Longrightarrow> returns (bindR m f)"
  by (cases m) simp_all

lemma forEachR_returns:
  "(\<And>x s. x \<in> set xs \<Longrightarrow> returns (f x s)) \<Longrightarrow> returns (forEachR f xs s)"
  by (induction xs arbitrary: s) (simp_all add: bindR_returns)

lemma js_includes_returns [simp]: "returns (js_includes v k)"
  by (cases v) simp_all

lemma generateExample_returns:
  "refs_nest_within n root schema \<Longrightarrow> returns (generateExample now n schema root onlyRequired)"
proof (induction now n schema root onlyRequired rule: generateExample.induct)
  case (1 now n schema root onlyRequired)
  note within = "1.prems"
  show ?case
  proof (cases "truthy schema")
    case False
    then show ?thesis by (simp add: generateExample.simps)
  next
    case schema: True
    show ?thesis
    proof (cases "truthy (own_prop schema ''$ref'')")
      case ref: True
      have hop: "returns (generateExample now m (resolve root r) root onlyRequired)"
        if "own_prop schema ''$ref'' = JStr r" "truthy (resolve root r)" "n = Suc m" for r m
        using "1.IH"(1) [of r "resolve root r" m] that schema ref within_ref [OF within that(1,2)]
        by simp
      have budget: "n \<noteq> 0"
        if "own_prop schema ''$ref'' = JStr r" "truthy (resolve root r)" for r
        using within_ref [OF within that] by auto
      show ?thesis
        using schema ref hop budget
        by (subst generateExample.simps) (auto simp: Let_def split: jv.splits nat.splits)
    next
      case noref: False
      show ?thesis
      proof (cases "truthy (own_prop schema ''allOf'')")
        case allOf: True
        have child: "returns (generateExample now n sub root onlyRequired)"
          if "own_prop schema ''allOf'' = JArr subs" "sub \<in> set subs" for subs sub
          using "1.IH"(2) [of subs sub] that schema noref allOf within_element [OF within that]
          by simp
        show ?thesis
          using schema noref allOf child
          by (subst generateExample.simps)
             (auto split: jv.splits intro!: bindR_returns forEachR_returns)
      next
        case noallOf: False
        show ?thesis
        proof (cases "truthy (own_prop schema ''anyOf'') \<or> truthy (own_prop schema ''oneOf'')")
          case alts: True
          let ?first = "own_prop (js_or (own_prop schema ''anyOf'') (own_prop schema ''oneOf'')) ''0''"
          have "refs_nest_within n root ?first"
            using within by (simp add: js_or_def within_own_prop)
          then have "returns (generateExample now n ?first root onlyRequired)"
            using "1.IH"(3) schema noref noallOf alts by simp
          then show ?thesis
            using schema noref noallOf alts by (subst generateExample.simps) simp
        next
          case noalts: False
          let ?props = "js_or (own_prop schema ''properties'') (JObj [])"
          have property: "returns (generateExample now n (snd kv) root onlyRequired)"
            if "own_prop schema ''example'' = JUndef" "own_prop schema ''default'' = JUndef"
              "own_prop schema ''type'' = JStr ''object'' \<or> truthy (own_prop schema ''properties'')"
              "kv \<in> set (own_entries ?props)"
              "(if onlyRequired then js_includes (js_or (own_prop schema ''required'') (JArr [])) (fst kv)
                else Ok True) = Ok True" for kv
          proof -
            have "refs_nest_within n root ?props"
              using within by (simp add: js_or_def within_own_prop within_leaf)
            then have "refs_nest_within n root (snd kv)"
              using that(4) by (rule within_own_entries)
            then show ?thesis
              using "1.IH"(4) [of ?props "js_or (own_prop schema ''required'') (JArr [])" kv True]
                that schema noref noallOf noalts by simp
          qed
          have item: "returns (generateExample now n (own_prop schema ''items'') root onlyRequired)"
            if "own_prop schema ''example'' = JUndef" "own_prop schema ''default'' = JUndef"
              "\<not> (own_prop schema ''type'' = JStr ''object'' \<or> truthy (own_prop schema ''properties''))"
              "own_prop schema ''type'' = JStr ''array''"
            using "1.IH"(5) that schema noref noallOf noalts within_own_prop [OF within, of "''items''"]
            by simp
          show ?thesis
            using schema noref noallOf noalts property item
            by (subst generateExample.simps)
               (auto simp: Let_def intro!: bindR_returns forEachR_returns)
        qed
      qed
    qed
  qed
qed

lemma parseSchema_returns:
  "refs_nest_within n root schema \<Longrightarrow> returns (parseSchema n schema root lines depth)"
proof (induction n schema root lines depth rule: parseSchema.induct)
  case (1 n schema root lines depth)
  note within = "1.prems"
  show ?case
  proof (cases "truthy schema")
    case False
    then show ?thesis by (simp add: parseSchema.simps)
  next
    case schema: True
    show ?thesis
    proof (cases "truthy (own_prop schema ''$ref'')")
      case ref: True
      have hop: "returns (parseSchema m (resolve root r) root lines depth)"
        if "own_prop schema ''$ref'' = JStr r" "truthy (resolve root r)" "n = Suc m" for r m
        using "1.IH"(1) [of r "resolve root r" m] that schema ref within_ref [OF within that(1,2)]
        by simp
      have budget: "n \<noteq> 0"
        if "own_prop schema ''$ref'' = JStr r" "truthy (resolve root r)" for r
        using within_ref [OF within that] by auto
      show ?thesis
        using schema ref hop budget
        by (subst parseSchema.simps) (auto simp: Let_def split: jv.splits nat.splits)
    next
      case noref: False
      show ?thesis
      proof (cases "truthy (own_prop schema ''allOf'') \<or> truthy (own_prop schema ''anyOf'')
                      \<or> truthy (own_prop schema ''oneOf'')")
        case comp: True
        let ?subSchemas = "js_or (own_prop schema ''allOf'')
                             (js_or (own_prop schema ''anyOf'') (own_prop schema ''oneOf''))"
        have subs: "refs_nest_within n root ?subSchemas"
          using within by (simp add: js_or_def within_own_prop)
        have child: "returns (parseSchema n sub root ls (depth + 1))"
          if "?subSchemas = JArr xs" "sub \<in> set xs" for xs sub ls
        proof -
          have "refs_nest_within n root sub"
            using subs that within_part [of n root "JArr xs" sub] by simp
          then show ?thesis
            using "1.IH"(2) [OF _ noref comp refl refl refl that] schema by simp
        qed
        show ?thesis
          using schema noref comp child
          by (subst parseSchema.simps)
             (auto simp: Let_def split: jv.splits intro!: forEachR_returns)
      next
        case nocomp: False
        show ?thesis
        proof (cases "own_prop schema ''type'' = JStr ''object''
                        \<or> truthy (own_prop schema ''properties'')")
          case obj: True
          let ?props = "js_or (own_prop schema ''properties'') (JObj [])"
          let ?required = "js_or (own_prop schema ''required'') (JArr [])"
          have props: "refs_nest_within n root ?props"
            using within by (simp add: js_or_def within_own_prop)
          have property: "returns (parseSchema n (snd kv) root ls (depth + 1))"
            if "kv \<in> set (own_entries ?props)" "js_includes ?required (fst kv) = Ok isRequired"
              "\<not> nullish (snd kv)"
              "own_prop (snd kv) ''type'' = JStr ''object'' \<or> truthy (own_prop (snd kv) ''properties'')
                 \<or> truthy (own_prop (snd kv) ''$ref'')"
              "ls = u @ [property_line depth (fst kv) isRequired (snd kv)]"
            for kv isRequired ls u
            using "1.IH"(3) [OF _ noref nocomp obj refl refl that(1,2,3,4), of u] schema that(5)
              within_own_entries [OF props that(1)]
            by simp
          have items: "returns (parseSchema n (own_prop (snd kv) ''items'') root ls (depth + 2))"
            if "kv \<in> set (own_entries ?props)" "js_includes ?required (fst kv) = Ok isRequired"
              "\<not> nullish (snd kv)"
              "\<not> (own_prop (snd kv) ''type'' = JStr ''object'' \<or> truthy (own_prop (snd kv) ''properties'')
                 \<or> truthy (own_prop (snd kv) ''$ref''))"
              "own_prop (snd kv) ''type'' = JStr ''array'' \<and> truthy (own_prop (snd kv) ''items'')"
              "ls = u @ [property_line depth (fst kv) isRequired (snd kv),
                         indent (depth + 1) @ ''*Items:*'']"
            for kv isRequired ls u
            using "1.IH"(4) [OF _ noref nocomp obj refl refl that(1,2,3,4,5), of u] schema that(6)
              within_own_prop [OF within_own_entries [OF props that(1)], of "''items''"]
            by simp
          have step: "returns (bindR (js_includes ?required (fst kv)) (\<lambda>isRequired.
               if nullish (snd kv) then Throw TypeError
               else if own_prop (snd kv) ''type'' = JStr ''object''
                       \<or> truthy (own_prop (snd kv) ''properties'')
                       \<or> truthy (own_prop (snd kv) ''$ref'') then
                 parseSchema n (snd kv) root
                   (ls @ [property_line depth (fst kv) isRequired (snd kv)]) (depth + 1)
               else if own_prop (snd kv) ''type'' = JStr ''array''
                       \<and> truthy (own_prop (snd kv) ''items'') then
                 parseSchema n (own_prop (snd kv) ''items'') root
                   (ls @ [property_line depth (fst kv) isRequired (snd kv),
                          indent (depth + 1) @ ''*Items:*''])
                   (depth + 2)
               else Ok (ls @ [property_line depth (fst kv) isRequired (snd kv)])))"
            if "kv \<in> set (own_entries ?props)" for kv ls
            using that property [of kv _ _ ls] items [of kv _ _ ls]
            by (intro bindR_returns) auto
          show ?thesis
            using schema noref nocomp obj step
            by (subst parseSchema.simps) (simp add: Let_def forEachR_returns)
        next
          case noobj: False
          have item: "returns (parseSchema n (own_prop schema ''items'') root ls (depth + 1))"
            if "own_prop schema ''type'' = JStr ''array'' \<and> truthy (own_prop schema ''items'')"
              "ls = lines @ [array_line depth schema]" for ls
            using "1.IH"(5) [OF _ noref nocomp noobj that(1)] schema that(2)
              within_own_prop [OF within, of "''items''"]
            by simp
          show ?thesis
            using schema noref nocomp noobj item
            by (subst parseSchema.simps) simp
        qed
      qed
    qed
  qed
qed

subsection \<open>A larger budget changes no result\<close>

lemma bindR_stable:
  assumes "returns (bindR m k)"
    and "returns m \<Longrightarrow> m' = m"
    and "\<And>x. m = Ok x \<Longrightarrow> returns (k x) \<Longrightarrow> k' x = k x"
  shows "bindR m' k' = bindR m k"
  using assms by (cases m) simp_all

lemma forEachR_stable:
  assumes "returns (forEachR g xs s)"
    and "\<And>x u. x \<in> set xs \<Longrightarrow> returns (g x u) \<Longrightarrow> f x u = g x u"
  shows "forEachR f xs s = forEachR g xs s"
  using assms
proof (induction xs arbitrary: s)
  case Nil
  then show ?case by simp
next
  case (Cons x xs)
  show ?case
  proof (cases "g x s")
    case (Ok s')
    then have "f x s = Ok s'" using Cons.prems(2) [of x s] by simp
    moreover have "forEachR f xs s' = forEachR g xs s'"
      using Cons.prems Ok by (intro Cons.IH) auto
    ultimately show ?thesis using Ok by simp
  next
    case (Throw e)
    then have "f x s = Throw e" using Cons.prems(2) [of x s] by simp
    then show ?thesis using Throw by simp
  next
    case Diverge
    then show ?thesis using Cons.prems(1) by simp
  qed
qed

lemma generateExample_stable:
  "returns (generateExample now n schema root onlyRequired) \<Longrightarrow>
   generateExample now (Suc n) schema root onlyRequired
     = generateExample now n schema root onlyRequired"
proof (induction now n schema root onlyRequired rule: generateExample.induct)
  case (1 now n schema root onlyRequired)
  note ret = "1.prems"
  show ?case
  proof (cases "truthy schema")
    case False
    then show ?thesis by (simp add: generateExample.simps)
  next
    case schema: True
    show ?thesis
    proof (cases "truthy (own_prop schema ''$ref'')")
      case ref: True
      show ?thesis
      proof (cases "own_prop schema ''$ref''")
        case (JStr r)
        show ?thesis
        proof (cases "truthy (resolve root r)")
          case target: True
          then obtain m where m: "n = Suc m"
            using ret schema ref JStr
            by (subst (asm) generateExample.simps) (cases n; simp)
          have "returns (generateExample now m (resolve root r) root onlyRequired)"
            using ret schema ref JStr target m
            by (subst (asm) generateExample.simps) simp
          then have "generateExample now (Suc m) (resolve root r) root onlyRequired
              = generateExample now m (resolve root r) root onlyRequired"
            using "1.IH"(1) [of r "resolve root r" m] schema ref JStr target m by simp
          then show ?thesis
            using schema ref JStr target m
            by (simp add: generateExample.simps [of now "Suc (Suc m)" schema]
                generateExample.simps [of now "Suc m" schema])
        next
          case False
          then show ?thesis
            using schema ref JStr
            by (simp add: generateExample.simps [of now "Suc n" schema]
                generateExample.simps [of now n schema])
        qed
      qed (use schema ref in \<open>simp_all add: generateExample.simps [of now "Suc n" schema]
                generateExample.simps [of now n schema]\<close>)
    next
      case noref: False
      show ?thesis
      proof (cases "truthy (own_prop schema ''allOf'')")
        case allOf: True
        show ?thesis
        proof (cases "own_prop schema ''allOf''")
          case (JArr subs)
          let ?step = "\<lambda>k sub merged. bindR (generateExample now k sub root onlyRequired)
                         (\<lambda>ex. Ok (if is_object ex then spread merged ex else merged))"
          have run: "returns (forEachR (?step n) subs [])"
            using ret schema noref allOf JArr
            by (subst (asm) generateExample.simps) (cases "forEachR (?step n) subs []"; simp)
          have "forEachR (?step (Suc n)) subs [] = forEachR (?step n) subs []"
          proof (rule forEachR_stable [OF run])
            fix sub merged
            assume sub: "sub \<in> set subs" and "returns (?step n sub merged)"
            then have "returns (generateExample now n sub root onlyRequired)"
              by (cases "generateExample now n sub root onlyRequired") simp_all
            then have "generateExample now (Suc n) sub root onlyRequired
                = generateExample now n sub root onlyRequired"
              using "1.IH"(2) [of subs sub] schema noref allOf JArr sub by simp
            then show "?step (Suc n) sub merged = ?step n sub merged" by simp
          qed
          then show ?thesis
            using schema noref allOf JArr
            by (simp add: generateExample.simps [of now "Suc n" schema]
                generateExample.simps [of now n schema])
        qed (use schema noref allOf in \<open>simp_all add: generateExample.simps [of now "Suc n" schema]
                generateExample.simps [of now n schema]\<close>)
      next
        case noallOf: False
        show ?thesis
        proof (cases "truthy (own_prop schema ''anyOf'') \<or> truthy (own_prop schema ''oneOf'')")
          case alts: True
          let ?first = "own_prop (js_or (own_prop schema ''anyOf'') (own_prop schema ''oneOf'')) ''0''"
          have "returns (generateExample now n ?first root onlyRequired)"
            using ret schema noref noallOf alts
            by (subst (asm) generateExample.simps) simp
          then have "generateExample now (Suc n) ?first root onlyRequired
              = generateExample now n ?first root onlyRequired"
            using "1.IH"(3) schema noref noallOf alts by simp
          then show ?thesis
            using schema noref noallOf alts
            by (simp add: generateExample.simps [of now "Suc n" schema]
                generateExample.simps [of now n schema])
        next
          case noalts: False
          show ?thesis
          proof (cases "own_prop schema ''example'' \<noteq> JUndef \<or> own_prop schema ''default'' \<noteq> JUndef")
            case True
            then show ?thesis
              using schema noref noallOf noalts
              by (auto simp: generateExample.simps [of now "Suc n" schema]
                  generateExample.simps [of now n schema])
          next
            case given: False
            show ?thesis
            proof (cases "own_prop schema ''type'' = JStr ''object''
                            \<or> truthy (own_prop schema ''properties'')")
              case obj: True
              let ?props = "js_or (own_prop schema ''properties'') (JObj [])"
              let ?required = "js_or (own_prop schema ''required'') (JArr [])"
              let ?step = "\<lambda>k kv obj.
                    bindR (if onlyRequired then js_includes ?required (fst kv) else Ok True) (\<lambda>inc.
                      if \<not> inc then Ok obj
                      else bindR (generateExample now k (snd kv) root onlyRequired) (\<lambda>v.
                             Ok (obj_set obj (fst kv) v)))"
              have run: "returns (forEachR (?step n) (own_entries ?props) [])"
                using ret schema noref noallOf noalts given obj
                by (subst (asm) generateExample.simps)
                   (cases "forEachR (?step n) (own_entries ?props) []"; simp add: Let_def)
              have "forEachR (?step (Suc n)) (own_entries ?props) []
                  = forEachR (?step n) (own_entries ?props) []"
              proof (rule forEachR_stable [OF run])
                fix kv acc
                assume kv: "kv \<in> set (own_entries ?props)" and r: "returns (?step n kv acc)"
                show "?step (Suc n) kv acc = ?step n kv acc"
                proof (cases "if onlyRequired then js_includes ?required (fst kv) else Ok True")
                  case (Ok inc)
                  show ?thesis
                  proof (cases inc)
                    case True
                    then have "returns (generateExample now n (snd kv) root onlyRequired)"
                      using r Ok
                      by (cases "generateExample now n (snd kv) root onlyRequired") simp_all
                    then have "generateExample now (Suc n) (snd kv) root onlyRequired
                        = generateExample now n (snd kv) root onlyRequired"
                      using "1.IH"(4) [of ?props ?required kv True] schema noref noallOf noalts
                        given obj kv Ok True by simp
                    then show ?thesis using Ok True by simp
                  next
                    case False
                    then show ?thesis using Ok by simp
                  qed
                qed simp_all
              qed
              then show ?thesis
                using schema noref noallOf noalts given obj
                by (simp add: generateExample.simps [of now "Suc n" schema]
                    generateExample.simps [of now n schema] Let_def)
            next
              case noobj: False
              show ?thesis
              proof (cases "own_prop schema ''type'' = JStr ''array''")
                case arr: True
                have "returns (generateExample now n (own_prop schema ''items'') root onlyRequired)"
                  using ret schema noref noallOf noalts given noobj arr
                  by (subst (asm) generateExample.simps)
                     (cases "generateExample now n (own_prop schema ''items'') root onlyRequired";
                      simp)
                then have "generateExample now (Suc n) (own_prop schema ''items'') root onlyRequired
                    = generateExample now n (own_prop schema ''items'') root onlyRequired"
                  using "1.IH"(5) schema noref noallOf noalts given noobj arr by simp
                then show ?thesis
                  using schema noref noallOf noalts given noobj arr
                  by (simp add: generateExample.simps [of now "Suc n" schema]
                      generateExample.simps [of now n schema])
              next
                case False
                then show ?thesis
                  using schema noref noallOf noalts given noobj
                  by (simp add: generateExample.simps [of now "Suc n" schema]
                      generateExample.simps [of now n schema])
              qed
            qed
          qed
        qed
      qed
    qed
  qed
qed

lemma parseSchema_stable:
  "returns (parseSchema n schema root lines depth) \<Longrightarrow>
   parseSchema (Suc n) schema root lines depth = parseSchema n schema root lines depth"
proof (induction n schema root lines depth rule: parseSchema.induct)
  case (1 n schema root lines depth)
  note ret = "1.prems"
  show ?case
  proof (cases "truthy schema")
    case False
    then show ?thesis by (simp add: parseSchema.simps)
  next
    case schema: True
    show ?thesis
    proof (cases "truthy (own_prop schema ''$ref'')")
      case ref: True
      show ?thesis
      proof (cases "own_prop schema ''$ref''")
        case (JStr r)
        show ?thesis
        proof (cases "truthy (resolve root r)")
          case target: True
          then obtain m where m: "n = Suc m"
            using ret schema ref JStr
            by (subst (asm) parseSchema.simps) (cases n; simp)
          have "returns (parseSchema m (resolve root r) root lines depth)"
            using ret schema ref JStr target m
            by (subst (asm) parseSchema.simps) simp
          then have "parseSchema (Suc m) (resolve root r) root lines depth
              = parseSchema m (resolve root r) root lines depth"
            using "1.IH"(1) [of r "resolve root r" m] schema ref JStr target m by simp
          then show ?thesis
            using schema ref JStr target m
            by (simp add: parseSchema.simps [of "Suc (Suc m)" schema]
                parseSchema.simps [of "Suc m" schema])
        next
          case False
          then show ?thesis
            using schema ref JStr
            by (simp add: parseSchema.simps [of "Suc n" schema] parseSchema.simps [of n schema])
        qed
      qed (use schema ref in \<open>simp_all add: parseSchema.simps [of "Suc n" schema]
                parseSchema.simps [of n schema]\<close>)
    next
      case noref: False
      show ?thesis
      proof (cases "truthy (own_prop schema ''allOf'') \<or> truthy (own_prop schema ''anyOf'')
                      \<or> truthy (own_prop schema ''oneOf'')")
        case comp: True
        let ?label = "if truthy (own_prop schema ''allOf'') then ''All of:''
                      else if truthy (own_prop schema ''anyOf'') then ''Any of:''
                      else ''One of:''"
        let ?lines1 = "lines @ [indent depth @ ''- *'' @ ?label @ ''*'']"
        let ?subSchemas = "js_or (own_prop schema ''allOf'')
                             (js_or (own_prop schema ''anyOf'') (own_prop schema ''oneOf''))"
        show ?thesis
        proof (cases ?subSchemas)
          case (JArr subs)
          let ?step = "\<lambda>k sub ls. parseSchema k sub root ls (depth + 1)"
          have run: "returns (forEachR (?step n) subs ?lines1)"
            using ret schema noref comp JArr
            by (subst (asm) parseSchema.simps) (simp add: Let_def)
          have "forEachR (?step (Suc n)) subs ?lines1 = forEachR (?step n) subs ?lines1"
          proof (rule forEachR_stable [OF run])
            fix sub ls
            assume "sub \<in> set subs" and "returns (?step n sub ls)"
            then show "?step (Suc n) sub ls = ?step n sub ls"
              using "1.IH"(2) [OF _ noref comp refl refl refl JArr, of sub ls] schema by simp
          qed
          then show ?thesis
            using schema noref comp JArr
            by (simp add: parseSchema.simps [of "Suc n" schema] parseSchema.simps [of n schema]
                Let_def)
        qed (use schema noref comp in \<open>simp_all add: parseSchema.simps [of "Suc n" schema]
                parseSchema.simps [of n schema] Let_def\<close>)
      next
        case nocomp: False
        show ?thesis
        proof (cases "own_prop schema ''type'' = JStr ''object''
                        \<or> truthy (own_prop schema ''properties'')")
          case obj: True
          let ?props = "js_or (own_prop schema ''properties'') (JObj [])"
          let ?required = "js_or (own_prop schema ''required'') (JArr [])"
          let ?step = "\<lambda>k kv ls.
             bindR (js_includes ?required (fst kv)) (\<lambda>isRequired.
               if nullish (snd kv) then Throw TypeError
               else if own_prop (snd kv) ''type'' = JStr ''object''
                       \<or> truthy (own_prop (snd kv) ''properties'')
                       \<or> truthy (own_prop (snd kv) ''$ref'') then
                 parseSchema k (snd kv) root
                   (ls @ [property_line depth (fst kv) isRequired (snd kv)]) (depth + 1)
               else if own_prop (snd kv) ''type'' = JStr ''array''
                       \<and> truthy (own_prop (snd kv) ''items'') then
                 parseSchema k (own_prop (snd kv) ''items'') root
                   (ls @ [property_line depth (fst kv) isRequired (snd kv),
                          indent (depth + 1) @ ''*Items:*''])
                   (depth + 2)
               else Ok (ls @ [property_line depth (fst kv) isRequired (snd kv)]))"
          have run: "returns (forEachR (?step n) (own_entries ?props) lines)"
            using ret schema noref nocomp obj
            by (subst (asm) parseSchema.simps) (simp add: Let_def)
          have "forEachR (?step (Suc n)) (own_entries ?props) lines
              = forEachR (?step n) (own_entries ?props) lines"
          proof (rule forEachR_stable [OF run])
            fix kv ls
            assume kv: "kv \<in> set (own_entries ?props)" and r: "returns (?step n kv ls)"
            show "?step (Suc n) kv ls = ?step n kv ls"
            proof (cases "js_includes ?required (fst kv)")
              case (Ok isRequired)
              have deep: "parseSchema (Suc n) (snd kv) root
                    (ls @ [property_line depth (fst kv) isRequired (snd kv)]) (depth + 1)
                  = parseSchema n (snd kv) root
                    (ls @ [property_line depth (fst kv) isRequired (snd kv)]) (depth + 1)"
                if "\<not> nullish (snd kv)"
                  "own_prop (snd kv) ''type'' = JStr ''object''
                     \<or> truthy (own_prop (snd kv) ''properties'')
                     \<or> truthy (own_prop (snd kv) ''$ref'')"
                using "1.IH"(3) [OF _ noref nocomp obj refl refl kv Ok that, of ls] schema r Ok that
                by simp
              have items: "parseSchema (Suc n) (own_prop (snd kv) ''items'') root
                    (ls @ [property_line depth (fst kv) isRequired (snd kv),
                           indent (depth + 1) @ ''*Items:*'']) (depth + 2)
                  = parseSchema n (own_prop (snd kv) ''items'') root
                    (ls @ [property_line depth (fst kv) isRequired (snd kv),
                           indent (depth + 1) @ ''*Items:*'']) (depth + 2)"
                if "\<not> nullish (snd kv)"
                  "\<not> (own_prop (snd kv) ''type'' = JStr ''object''
                     \<or> truthy (own_prop (snd kv) ''properties'')
                     \<or> truthy (own_prop (snd kv) ''$ref''))"
                  "own_prop (snd kv) ''type'' = JStr ''array'' \<and> truthy (own_prop (snd kv) ''items'')"
                using "1.IH"(4) [OF _ noref nocomp obj refl refl kv Ok that, of ls] schema r Ok that
                by simp
              show ?thesis using Ok deep items by simp
            qed simp_all
          qed
          then show ?thesis
            using schema noref nocomp obj
            by (simp add: parseSchema.simps [of "Suc n" schema] parseSchema.simps [of n schema]
                Let_def)
        next
          case noobj: False
          show ?thesis
          proof (cases "own_prop schema ''type'' = JStr ''array'' \<and> truthy (own_prop schema ''items'')")
            case arr: True
            have "returns (parseSchema n (own_prop schema ''items'') root
                    (lines @ [array_line depth schema]) (depth + 1))"
              using ret schema noref nocomp noobj arr
              by (subst (asm) parseSchema.simps) simp
            then have "parseSchema (Suc n) (own_prop schema ''items'') root
                    (lines @ [array_line depth schema]) (depth + 1)
                = parseSchema n (own_prop schema ''items'') root
                    (lines @ [array_line depth schema]) (depth + 1)"
              using "1.IH"(5) [OF _ noref nocomp noobj arr] schema by simp
            then show ?thesis
              using schema noref nocomp noobj arr
              by (simp add: parseSchema.simps [of "Suc n" schema] parseSchema.simps [of n schema])
          next
            case False
            then show ?thesis
              using schema noref nocomp noobj
              by (auto simp: parseSchema.simps [of "Suc n" schema] parseSchema.simps [of n schema])
          qed
        qed
      qed
    qed
  qed
qed

text \<open>
  Once a call returns within a budget, every larger budget gives the same result: the
  result of the program is the result under any budget that suffices, and \<open>Diverge\<close>
  under every budget is a recursion without end.
\<close>

lemma generateExample_budget:
  "returns (generateExample now n schema root onlyRequired) \<Longrightarrow>
   generateExample now (n + k) schema root onlyRequired
     = generateExample now n schema root onlyRequired"
proof (induction k)
  case 0
  then show ?case by simp
next
  case (Suc k)
  then have "returns (generateExample now (n + k) schema root onlyRequired)" by simp
  then show ?case using Suc generateExample_stable [of now "n + k" schema root onlyRequired] by simp
qed

lemma parseSchema_budget:
  "returns (parseSchema n schema root lines depth) \<Longrightarrow>
   parseSchema (n + k) schema root lines depth = parseSchema n schema root lines depth"
proof (induction k)
  case 0
  then show ?case by simp
next
  case (Suc k)
  then have "returns (parseSchema (n + k) schema root lines depth)" by simp
  then show ?case using Suc parseSchema_stable [of "n + k" schema root lines depth] by simp
qed

subsection \<open>The conversion of a whole document\<close>

lemma within_js_or:
  "refs_nest_within n root a \<Longrightarrow> refs_nest_within n root b \<Longrightarrow> refs_nest_within n root (js_or a b)"
  by (simp add: js_or_def)

lemma within_first_value:
  "refs_nest_within n root content \<Longrightarrow> refs_nest_within n root (first_value content)"
proof (cases "own_entries content")
  case Nil
  then show ?thesis by (simp add: first_value_def within_leaf)
next
  case (Cons kv rest)
  then have "kv \<in> set (own_entries content)" by simp
  then show "refs_nest_within n root content \<Longrightarrow> ?thesis"
    using Cons within_own_entries [of n root content kv] by (simp add: first_value_def)
qed

lemma within_content_schema:
  "refs_nest_within n root content \<Longrightarrow> refs_nest_within n root (content_schema content)"
  by (simp add: content_schema_def within_js_or within_own_prop within_first_value)

lemma parameter_line_returns [simp]: "returns (parameter_line p)"
  by (simp add: parameter_line_def Let_def)

lemma input_section_returns:
  assumes "refs_nest_within n spec op"
  shows "returns (input_section n spec op ls)"
proof -
  have "refs_nest_within n spec
          (content_schema (js_or (own_prop (own_prop op ''requestBody'') ''content'') (JObj [])))"
    using assms by (simp add: within_content_schema within_js_or within_own_prop)
  then show ?thesis
    unfolding input_section_def Let_def
    by (intro bindR_returns forEachR_returns)
       (auto split: jv.splits prod.splits intro!: bindR_returns forEachR_returns parseSchema_returns)
qed

lemma bindR_OkD: "bindR m f = Ok r \<Longrightarrow> \<exists>x. m = Ok x \<and> f x = Ok r"
  by (cases m) simp_all

lemma input_section_bodySchema:
  assumes "refs_nest_within n spec op" and "input_section n spec op ls = Ok (ls', bodySchema)"
  shows "refs_nest_within n spec bodySchema"
proof -
  let ?schema = "content_schema (js_or (own_prop (own_prop op ''requestBody'') ''content'') (JObj []))"
  have "refs_nest_within n spec ?schema"
    using assms(1) by (simp add: within_content_schema within_js_or within_own_prop)
  moreover have "bodySchema = ?schema \<or> bodySchema = JNull"
    using assms(2) unfolding input_section_def Let_def
    by (auto dest!: bindR_OkD split: if_splits prod.splits)
  ultimately show ?thesis by (auto simp: within_leaf)
qed

lemma Object_keys_returns [simp]: "returns (Object_keys v)"
  by (simp add: Object_keys_def)

lemma Object_entries_returns [simp]: "returns (Object_entries v)"
  by (simp add: Object_entries_def)

lemma input_examples_returns:
  assumes "refs_nest_within n spec bodySchema"
  shows "returns (input_examples now n spec bodySchema ls)"
  unfolding input_examples_def Let_def
  by (intro bindR_returns generateExample_returns assms) simp_all

lemma respEx_returns:
  assumes "refs_nest_within n spec jsonSchema"
  shows "returns (respEx now n content jsonSchema spec)"
  using assms by (simp add: respEx_def Let_def generateExample_returns)

lemma response_block_returns:
  assumes "refs_nest_within n spec (snd cr)"
  shows "returns (response_block now n spec cr ls)"
proof -
  have "refs_nest_within n spec
          (content_schema (js_or (own_prop (snd cr) ''content'') (JObj [])))"
    using assms by (simp add: within_content_schema within_js_or within_own_prop)
  then show ?thesis
    using assms unfolding response_block_def Let_def
    by (auto split: option.splits intro!: bindR_returns parseSchema_returns respEx_returns)
qed

lemma output_section_returns:
  assumes "refs_nest_within n spec op"
  shows "returns (output_section now n spec op ls)"
proof -
  have "refs_nest_within n spec (js_or (own_prop op ''responses'') (JObj []))"
    using assms by (simp add: within_js_or within_own_prop)
  then show ?thesis
    unfolding output_section_def Let_def
    by (auto intro!: forEachR_returns response_block_returns within_own_entries)
qed

lemma usage_examples_returns:
  assumes "refs_nest_within n spec bodySchema"
  shows "returns (usage_examples now n spec baseUrl path method bodySchema ls)"
  unfolding usage_examples_def Let_def
  by (auto intro!: bindR_returns generateExample_returns assms)

lemma operation_block_returns:
  assumes "refs_nest_within n spec (snd md)"
  shows "returns (operation_block now n spec baseUrl path md ls)"
proof -
  have body: "refs_nest_within n spec bodySchema"
    if "input_section n spec (snd md) ls0 = Ok (ls1, bodySchema)" for ls0 ls1 bodySchema
    using assms that by (rule input_section_bodySchema)
  show ?thesis
    unfolding operation_block_def Let_def
    by (auto split: prod.splits
        intro!: bindR_returns input_section_returns input_examples_returns
          output_section_returns usage_examples_returns assms body)
qed

lemma localConvertToLlmTxt_returns:
  assumes "refs_nest_within n spec spec"
  shows "returns (localConvertToLlmTxt now n (Some spec))"
proof -
  have paths: "refs_nest_within n spec (js_or (own_prop spec ''paths'') (JObj []))"
    using assms by (simp add: within_js_or within_own_prop)
  have methods: "refs_nest_within n spec (snd md)"
    if "pm \<in> set (own_entries (js_or (own_prop spec ''paths'') (JObj [])))"
      "Object_entries (snd pm) = Ok ms" "md \<in> set ms" for pm ms md
  proof -
    have "refs_nest_within n spec (snd pm)"
      using paths that(1) by (rule within_own_entries)
    moreover have "md \<in> set (own_entries (snd pm))"
      using that(2,3) by (auto simp: Object_entries_def split: if_splits)
    ultimately show ?thesis by (rule within_own_entries)
  qed
  show ?thesis
    unfolding localConvertToLlmTxt_def Let_def
    by (auto simp: member_def
        intro!: bindR_returns forEachR_returns operation_block_returns methods)
qed

text \<open>
  C2, as the code has it. Neither function carries a set of visited schemas and none
  emits a cycle marker. Where the chains of \<^verbatim>\<open>$ref\<close> hops are bounded, as in every
  schema graph without a cycle, both return, and so does the conversion of a document all
  of whose chains are bounded. A cycle through \<^verbatim>\<open>$ref\<close> is not detected, and on a
  schema with one the functions need not return: the list node below, whose property
  refers to the node itself, is a schema on which neither returns in full mode.
\<close>

theorem bounded_refs_terminate:
  "(refs_nest_within n root schema \<longrightarrow>
      returns (generateExample now n schema root onlyRequired)
      \<and> returns (parseSchema n schema root lines depth))
   \<and> (refs_nest_within n spec spec \<longrightarrow> returns (localConvertToLlmTxt now n (Some spec)))"
  by (simp add: generateExample_returns parseSchema_returns localConvertToLlmTxt_returns)

subsection \<open>Evaluating the bound on a given document\<close>

lemma within_primitive [simp]:
  "refs_nest_within n root JUndef" "refs_nest_within n root JNull"
  "refs_nest_within n root (JBool b)" "refs_nest_within n root (JNum i)"
  "refs_nest_within n root (JStr s)"
  by (simp_all add: within_leaf)

lemma within_array [simp]:
  "refs_nest_within n root (JArr xs) = list_all (refs_nest_within n root) xs"
  by (subst refs_nest_within.simps)
     (simp add: list_all_iff parse_index_def is_digit_def)

lemma within_object_plain:
  "map_of kvs ''$ref'' = None \<Longrightarrow>
   refs_nest_within n root (JObj kvs) = list_all (\<lambda>kv. refs_nest_within n root (snd kv)) kvs"
  by (subst refs_nest_within.simps) (simp add: list_all_iff)

lemma within_object_ref:
  "map_of kvs ''$ref'' = Some (JStr r) \<Longrightarrow>
   refs_nest_within (Suc m) root (JObj kvs)
     = (list_all (\<lambda>kv. refs_nest_within (Suc m) root (snd kv)) kvs
        \<and> (truthy (resolve root r) \<longrightarrow> refs_nest_within m root (resolve root r)))"
  by (subst refs_nest_within.simps) (simp add: list_all_iff Let_def)

lemma within_object_ref_0:
  "map_of kvs ''$ref'' = Some (JStr r) \<Longrightarrow> truthy (resolve root r) \<Longrightarrow>
   \<not> refs_nest_within 0 root (JObj kvs)"
  by (subst refs_nest_within.simps) (simp add: Let_def)

text \<open>
  A document whose request body refers to the schema \<^verbatim>\<open>Pet\<close>:
  \<^verbatim>\<open>{"info": {"title": "T"}, "paths": {"/x": {"post": {"requestBody": {"content":
  {"application/json": {"schema": {"$ref": "#/components/schemas/Pet"}}}}}}},
  "components": {"schemas": {"Pet": {"type": "object", "properties": {"name": {"type":
  "string"}}}}}}\<close>
\<close>

definition pet_schema :: jv where
  "pet_schema = JObj [(''type'', JStr ''object''),
                      (''properties'', JObj [(''name'', JObj [(''type'', JStr ''string'')])])]"

definition pet_ref :: jv where
  "pet_ref = JObj [(''$ref'', JStr ''#/components/schemas/Pet'')]"

definition pet_doc :: jv where
  "pet_doc =
     JObj [(''info'', JObj [(''title'', JStr ''T'')]),
           (''paths'', JObj [(''/x'', JObj [(''post'', request_body_op pet_ref)])]),
           (''components'', JObj [(''schemas'', JObj [(''Pet'', pet_schema)])])]"

lemma resolve_pet: "resolve pet_doc ''#/components/schemas/Pet'' = pet_schema"
  by (simp add: resolve_def refPath_def walk_def pet_doc_def)

lemma within_pet_schema: "refs_nest_within n root pet_schema"
  by (simp add: pet_schema_def within_object_plain)

lemma within_pet_ref: "refs_nest_within (Suc 0) pet_doc pet_ref"
  by (simp add: pet_ref_def within_object_ref resolve_pet within_pet_schema)

lemma within_pet_doc: "refs_nest_within (Suc 0) pet_doc pet_doc"
proof -
  have "refs_nest_within (Suc 0) pet_doc
     (JObj [(''info'', JObj [(''title'', JStr ''T'')]),
           (''paths'', JObj [(''/x'', JObj [(''post'', JObj [(''requestBody'',
              JObj [(''content'', JObj [(''application/json'',
                JObj [(''schema'', pet_ref)])])])])])]),
           (''components'', JObj [(''schemas'', JObj [(''Pet'', pet_schema)])])])"
    by (simp add: within_object_plain within_pet_ref within_pet_schema)
  then show ?thesis
    by (simp add: pet_doc_def [of] request_body_op_def)
qed

theorem bounded_refs_terminate_witness:
  "refs_nest_within (Suc 0) pet_doc pet_ref
   \<and> returns (generateExample ''now'' (Suc 0) pet_ref pet_doc False)
   \<and> returns (parseSchema (Suc 0) pet_ref pet_doc [] 0)
   \<and> refs_nest_within (Suc 0) pet_doc pet_doc
   \<and> returns (localConvertToLlmTxt ''now'' (Suc 0) (Some pet_doc))"
  using bounded_refs_terminate [of "Suc 0" pet_doc pet_ref "''now''" False "[]" 0 pet_doc]
  by (simp add: within_pet_ref within_pet_doc)

text \<open>
  A document with a recursive schema, a list node that refers to itself:
  \<^verbatim>\<open>{"info": {"title": "T"}, "paths": {"/x": {"post": {"requestBody": {"content":
  {"application/json": {"schema": {"$ref": "#/components/schemas/Node"}}}}}}},
  "components": {"schemas": {"Node": {"type": "object", "properties": {"next": {"$ref":
  "#/components/schemas/Node"}}}}}}\<close>
\<close>

definition node_ref :: jv where
  "node_ref = JObj [(''$ref'', JStr ''#/components/schemas/Node'')]"

definition node_schema :: jv where
  "node_schema = JObj [(''type'', JStr ''object''), (''properties'', JObj [(''next'', node_ref)])]"

definition node_doc :: jv where
  "node_doc =
     JObj [(''info'', JObj [(''title'', JStr ''T'')]),
           (''paths'', JObj [(''/x'', JObj [(''post'', request_body_op node_ref)])]),
           (''components'', JObj [(''schemas'', JObj [(''Node'', node_schema)])])]"

lemma resolve_node: "resolve node_doc ''#/components/schemas/Node'' = node_schema"
  by (simp add: resolve_def refPath_def walk_def node_doc_def)

lemma truthy_node_schema [simp]: "truthy node_schema"
  by (simp add: node_schema_def)

lemma forEachR_Nil: "forEachR f [] = Ok"
  by (rule ext) simp

lemma bindR_Ok: "bindR m Ok = m"
  by (cases m) simp_all

lemma generateExample_node_ref:
  "generateExample now n node_ref node_doc False
     = (case n of 0 \<Rightarrow> Diverge | Suc m \<Rightarrow> generateExample now m node_schema node_doc False)"
  by (subst generateExample.simps) (simp add: node_ref_def resolve_node)

lemma generateExample_node_schema:
  "generateExample now n node_schema node_doc False
     = bindR (generateExample now n node_ref node_doc False) (\<lambda>v. Ok (JObj [(''next'', v)]))"
  by (subst generateExample.simps)
     (simp add: node_schema_def js_or_def obj_set_def bindR_assoc)

lemma generateExample_node_diverges:
  "generateExample now n node_ref node_doc False = Diverge"
proof (induction n)
  case 0
  show ?case by (simp add: generateExample_node_ref)
next
  case (Suc n)
  then show ?case by (simp add: generateExample_node_ref [of now "Suc n"] generateExample_node_schema)
qed

text \<open>
  The cycle of the list node is not followed where the property is left out: in
  required-only mode \<^verbatim>\<open>next\<close> is optional and the example is the empty object.
\<close>

lemma generateExample_node_required:
  "generateExample now (Suc n) node_ref node_doc True = Ok (JObj [])"
proof -
  have "generateExample now n node_schema node_doc True = Ok (JObj [])"
    by (subst generateExample.simps) (simp add: node_schema_def js_or_def)
  then show ?thesis
    by (subst generateExample.simps) (simp add: node_ref_def resolve_node)
qed

lemma parseSchema_node_ref:
  "parseSchema n node_ref node_doc ls d
     = (case n of 0 \<Rightarrow> Diverge | Suc m \<Rightarrow> parseSchema m node_schema node_doc ls d)"
  by (subst parseSchema.simps) (simp add: node_ref_def resolve_node)

lemma parseSchema_node_schema:
  "parseSchema n node_schema node_doc ls d
     = parseSchema n node_ref node_doc (ls @ [property_line d ''next'' False node_ref]) (d + 1)"
  by (subst parseSchema.simps)
     (simp add: node_schema_def js_or_def node_ref_def forEachR_Nil bindR_Ok)

lemma parseSchema_node_diverges: "parseSchema n node_ref node_doc ls d = Diverge"
proof (induction n arbitrary: ls d)
  case 0
  show ?case by (simp add: parseSchema_node_ref)
next
  case (Suc n)
  then show ?case by (simp add: parseSchema_node_ref [of "Suc n"] parseSchema_node_schema)
qed

lemma convert_node_doc_diverges: "localConvertToLlmTxt now n (Some node_doc) = Diverge"
proof -
  have ref: "truthy node_ref" by (simp add: node_ref_def)
  have up: "toUpperCase ''post'' = ''POST''"
    by (simp add: toUpperCase_def to_upper_def)
  have op: "\<not> nullish (request_body_op node_ref)"
    by (simp add: request_body_op_def)
  have "input_section n node_doc (request_body_op node_ref) ls = Diverge" for ls
    by (simp add: input_section_request_body [OF ref] parseSchema_node_diverges)
  then have "operation_block now n node_doc baseUrl ''/x'' (''post'', request_body_op node_ref) ls
      = Diverge" for baseUrl ls
    by (simp add: operation_block_def toLowerCase_post op Let_def)
  then show ?thesis
    by (simp add: localConvertToLlmTxt_def node_doc_def [of] member_def js_or_def Let_def
        Object_entries_def)
qed

theorem recursive_schema_counterexample:
  "(\<forall>n. generateExample ''now'' n node_ref node_doc False = Diverge)
   \<and> (\<forall>n. parseSchema n node_ref node_doc [] 0 = Diverge)
   \<and> (\<forall>n. localConvertToLlmTxt ''now'' n (Some node_doc) = Diverge)"
  by (simp add: generateExample_node_diverges parseSchema_node_diverges
      convert_node_doc_diverges)

section \<open>Further properties\<close>

text \<open>
  The Describer on a reference that does not resolve: when the walk along the segments
  of a \<^verbatim>\<open>$ref\<close> string ends in \<^verbatim>\<open>undefined\<close> (a segment is missing, or a value on
  the way has no such property) or in another falsy value, \<open>parseSchema\<close> pushes exactly
  one line, the placeholder that names the reference, and returns.
\<close>

theorem parseSchema_unresolved_ref:
  assumes "own_prop schema ''$ref'' = JStr r" and "r \<noteq> []" and "\<not> truthy (resolve root r)"
  shows "parseSchema n schema root lines depth
       = Ok (lines @ [indent depth @ ''- `Ref: '' @ r @ ''`''])"
proof -
  have "truthy (own_prop schema ''$ref'')" using assms(1,2) by simp
  moreover from this have "truthy schema" by (rule generateExample_truthy_keyword) simp
  ultimately show ?thesis
    using assms by (subst parseSchema.simps) simp
qed

theorem parseSchema_unresolved_ref_witness:
  "parseSchema 0 (JObj [(''$ref'', JStr ''#/definitions/Pet'')])
     (JObj [(''definitions'', JObj [])]) [''**Request Body:**''] 1
   = Ok [''**Request Body:**'', ''  - `Ref: #/definitions/Pet`'']"
  using parseSchema_unresolved_ref
    [of "JObj [(''$ref'', JStr ''#/definitions/Pet'')]" "''#/definitions/Pet''"
        "JObj [(''definitions'', JObj [])]" 0 "[''**Request Body:**'']" 1]
  by (simp add: resolve_def refPath_def walk_def indent_def)

text \<open>
  The fallbacks of the title and the summary: a document whose \<^verbatim>\<open>info\<close> has neither
  \<^verbatim>\<open>title\<close> nor \<^verbatim>\<open>description\<close>, here \<^verbatim>\<open>{"info": {}}\<close>, converts to the title
  line \<^verbatim>\<open># API Documentation\<close>, the summary line \<^verbatim>\<open>No description provided.\<close> and
  the heading of the endpoints.
\<close>

theorem empty_info_fallbacks:
  "localConvertToLlmTxt now n (Some (JObj [(''info'', JObj [])]))
   = Ok (join [newline]
       [''# API Documentation'', ''No description provided.'', [], ''## Endpoints'', []])"
  by (simp add: localConvertToLlmTxt_def member_def js_or_def)

text \<open>
  The first end-to-end scenario of the specification: the document
  \<^verbatim>\<open>{"info": {"title": "T"}, "paths": {"/x": {"get": {"responses": {"200":
  {"description": "ok"}}}}}}\<close> converts to these lines.
\<close>

definition scenario_a :: jv where
  "scenario_a =
     JObj [(''info'', JObj [(''title'', JStr ''T'')]),
           (''paths'', JObj [(''/x'', JObj [(''get'', JObj [(''responses'',
              JObj [(''200'', JObj [(''description'', JStr ''ok'')])])])])])]"

theorem scenario_a_output:
  "localConvertToLlmTxt now n (Some scenario_a)
   = Ok (join [newline]
       [''# T'', ''No description provided.'', [], ''## Endpoints'', [],
        ''### GET /x - No summary'', [],
        ''#### Input'', ''- No input parameters required.'', [],
        ''#### Output'', ''**Response 200: ok**'', ''  - No response body schema defined.'', [],
        ''#### Usage Examples'', [], ''##### cURL'', ''```bash'',
        ''curl --request GET '' @ [backslash, newline]
          @ ''  --url https://api.example.com/x '' @ [backslash, newline]
          @ ''  --header '' @ [dquote] @ ''Content-Type: application/json'' @ [dquote],
        ''```'', [], ''---'', []])"
proof -
  have low: "toLowerCase ''get'' = ''get''"
    by (simp add: toLowerCase_def to_lower_def)
  have up: "toUpperCase ''get'' = ''GET''"
    by (simp add: toUpperCase_def to_upper_def)
  show ?thesis
    by (simp add: localConvertToLlmTxt_def scenario_a_def member_def js_or_def Let_def
        Object_entries_def operation_block_def low up input_section_def output_section_def
        response_block_def content_schema_def first_value_def usage_examples_def)
qed

text \<open>
  The second scenario: for the request body schema \<^verbatim>\<open>{"type": "object", "properties":
  {"a": {"type": "string"}, "b": {"type": "integer"}}, "required": ["a"]}\<close> the Required
  Parameters Example block holds \<^verbatim>\<open>{"a": "string"}\<close> and the Full Example block
  \<^verbatim>\<open>{"a": "string", "b": 0}\<close>.
\<close>

theorem scenario_b_examples:
  "input_examples now n spec required_a_schema []
   = Ok [''**Required Parameters Example**:'', ''```json'',
         line_of_text (stringify_pretty (JObj [(''a'', JStr ''string'')])), ''```'', [],
         ''**Full Example**:'', ''```json'',
         line_of_text (stringify_pretty (JObj [(''a'', JStr ''string''), (''b'', JNum 0)])),
         ''```'', []]"
proof -
  have req: "generateExample now n required_a_schema spec True = Ok (JObj [(''a'', JStr ''string'')])"
    by (simp add: required_a_schema_def js_or_def obj_set_def
        generateExample.simps [of _ _ "JObj [(''type'', x), y, z]" for x y z])
  have full: "generateExample now n required_a_schema spec False
      = Ok (JObj [(''a'', JStr ''string''), (''b'', JNum 0)])"
    by (simp add: required_a_schema_def js_or_def obj_set_def
        generateExample.simps [of _ _ "JObj [(''type'', x), y, z]" for x y z])
  show ?thesis
    by (simp add: input_examples_def req full Object_keys_def)
qed

text \<open>
  The response path guards the example: for a response whose schema is a reference that
  does not resolve, the block has the placeholder line and no example, and nothing is
  thrown.
\<close>

theorem response_unresolved_ref:
  "response_block now n (JObj [])
     (''200'', JObj [(''content'', JObj [(''application/json'',
                 JObj [(''schema'', JObj [(''$ref'', JStr ''#/components/schemas/Foo'')])])])]) []
   = Ok [''**Response 200: No description**'', ''  - `Ref: #/components/schemas/Foo`'', []]"
proof -
  have res: "resolve (JObj []) ''#/components/schemas/Foo'' = JUndef"
    by (simp add: resolve_def refPath_def walk_def)
  show ?thesis
    by (simp add: response_block_def js_or_def content_schema_def Let_def respEx_def res
        indent_def
        parseSchema.simps [of _ "JObj [(''$ref'', x)]" for x]
        generateExample.simps [of _ _ "JObj [(''$ref'', x)]" for x])
qed

end
